theory Spec2Isabelle
  imports Complex_Main
begin

section \<open>Data model\<close>

text \<open>
  The name-change service of \<^verbatim>\<open>name.service.ts\<close> works on six tables through an
  object-relational mapper. A table is a list of rows in insertion order, a row is a
  record. Dates are milliseconds since the epoch. A field that a JavaScript instance
  may lack (the \<^verbatim>\<open>id\<close> of an instance not saved yet, the \<^verbatim>\<open>createdAt\<close> of a snapshot
  built from hiscores data) is an option.
\<close>

type_synonym date = int

datatype NameChangeStatus = PENDING | DENIED | APPROVED

text \<open>
  The error classes the service imports from \<^verbatim>\<open>../../errors\<close>, the runtime's
  \<^verbatim>\<open>TypeError\<close> (reading a property of \<^verbatim>\<open>null\<close>) and \<^verbatim>\<open>Error\<close> for anything else
  a database call may throw. An exception is a class and a message;
  \<^verbatim>\<open>e instanceof ServerError\<close> is \<open>errClass e = ServerError\<close>.
\<close>

datatype errorClass = BadRequestError | NotFoundError | ServerError | TypeError | Error

datatype error = Err (errClass: errorClass) (message: string)

text \<open>
  Modelled from the spec: the declarations of the \<^verbatim>\<open>Player\<close>, \<^verbatim>\<open>NameChange\<close>,
  \<^verbatim>\<open>Snapshot\<close> and \<^verbatim>\<open>Participation\<close> models are not among the sources. The rows have
  the fields that the service reads and writes and those of the spec's data model: an
  identity \<open>{id, currentName}\<close>, a request \<open>{id, donorName, recipientName, status,
  createdAt, resolvedAt?}\<close>, a snapshot \<open>{identityId, createdAt, metrics...}\<close> and a
  participation \<open>{identityId, eventId, createdAt, ...}\<close>.
\<close>

record player =
  p_id :: int
  p_username :: string
  p_displayName :: string

record nameChange =
  nc_id :: int
  nc_playerId :: int
  nc_oldName :: string
  nc_newName :: string
  nc_status :: NameChangeStatus
  nc_resolvedAt :: "date option"
  nc_createdAt :: date

record snapshot =
  s_id :: "int option"
  s_playerId :: int
  s_createdAt :: "date option"
  s_stats :: "int list"

record participation =
  pt_playerId :: int
  pt_competitionId :: int
  pt_createdAt :: date
  pt_updatedAt :: date

text \<open>The membership model: \<^verbatim>\<open>playerId\<close> and \<^verbatim>\<open>groupId\<close> are its primary key.\<close>

record membership =
  m_playerId :: int
  m_groupId :: int
  m_role :: string
  m_createdAt :: date
  m_updatedAt :: date

text \<open>
  Modelled from the spec: the declaration of the \<^verbatim>\<open>Record\<close> model is not among the
  sources. A best-record row is \<open>{identityId, metric, period, value, updatedAt}\<close>, one
  row per (identityId, metric, period), and that triple identifies the row.
\<close>

record recordRow =
  r_playerId :: int
  r_metric :: string
  r_period :: string
  r_value :: int
  r_updatedAt :: date

record db =
  players :: "player list"
  nameChanges :: "nameChange list"
  snapshots :: "snapshot list"
  participations :: "participation list"
  memberships :: "membership list"
  records :: "recordRow list"

text \<open>
  What the service reads from its surroundings: the \<^verbatim>\<open>env\<close> module, and the functions of
  the player, snapshot and efficiency services and of the query builder whose code is
  not among the sources. They are parameters of the model. \<open>gteUndefined\<close> says whether
  a row passes \<^verbatim>\<open>{ [Op.gte]: undefined }\<close>. The three \<open>cascade\<close> fields say whether the
  snapshot, participation and record models, whose declarations are not among the
  sources, delete the rows of a player with the player, as the membership model does.
\<close>

record env =
  ADMIN_PASSWORD :: string
  standardize :: "string \<Rightarrow> string"
  gteUndefined :: bool
  cascadeSnapshots :: bool
  cascadeParticipations :: bool
  cascadeRecords :: bool
  getHiscoresData :: "string \<Rightarrow> error + int list"
  fromRS :: "int \<Rightarrow> int list \<Rightarrow> snapshot"
  findFirstSince :: "db \<Rightarrow> int \<Rightarrow> date option \<Rightarrow> snapshot option"
  calculateEHPDiff :: "snapshot \<Rightarrow> snapshot \<Rightarrow> real"
  calculateEHBDiff :: "snapshot \<Rightarrow> snapshot \<Rightarrow> real"
  hasNegativeGains :: "snapshot \<Rightarrow> snapshot \<Rightarrow> bool"
  format :: "snapshot option \<Rightarrow> string"

section \<open>Transactions\<close>

text \<open>
  While a transaction is open there are two views of the database: the committed one,
  which a call without a \<^verbatim>\<open>transaction\<close> option reads and writes, and the
  transaction's own, which a call with the option writes. A transaction is open until
  it is finished, by a commit or by a rollback; \<open>finished\<close> is the field of that name of
  the transaction object.
\<close>

datatype finishedState = FinishedCommit | FinishedRollback

record session =
  committed :: db
  working :: db
  finished :: "finishedState option"

datatype transaction = Transaction

definition beginTransaction :: "db \<Rightarrow> session" where
  "beginTransaction d = \<lparr>committed = d, working = d, finished = None\<rparr>"

definition writeDb :: "transaction option \<Rightarrow> (db \<Rightarrow> db) \<Rightarrow> session \<Rightarrow> session" where
  "writeDb t f s =
     (case t of
        Some _ \<Rightarrow> s\<lparr>working := f (working s)\<rparr>
      | None \<Rightarrow> s\<lparr>committed := f (committed s)\<rparr>)"

text \<open>
  The database calls of \<^verbatim>\<open>transferData\<close>, in the order of the source, the rollback of
  the \<^verbatim>\<open>catch\<close> block last. A fault plan says which of them throw, and what. The calls
  outside \<^verbatim>\<open>transferData\<close> are taken to succeed.
\<close>

datatype step =
    BeginTransaction | FindLatest
  | FindOldRecords | FindNewRecords | UpdateRecords
  | FindSnapshots | CreateSnapshots
  | FindMemberships | CreateMemberships
  | FindParticipations | CreateParticipations
  | DestroyPlayer | SavePlayer | Commit | Rollback

type_synonym faults = "step \<Rightarrow> error option"

definition noFaults :: faults where
  "noFaults = (\<lambda>_. None)"

text \<open>An awaited call either throws or returns a value, and leaves a session behind.\<close>

type_synonym 'a io = "session \<Rightarrow> (error + 'a) \<times> session"

definition await :: "'a io \<Rightarrow> ('a \<Rightarrow> 'b io) \<Rightarrow> 'b io" where
  "await m k s = (case m s of (Inl e, s') \<Rightarrow> (Inl e, s') | (Inr x, s') \<Rightarrow> k x s')"

definition call :: "faults \<Rightarrow> step \<Rightarrow> 'a io \<Rightarrow> 'a io" where
  "call fault st m s = (case fault st of Some e \<Rightarrow> (Inl e, s) | None \<Rightarrow> m s)"

definition query :: "(db \<Rightarrow> 'a) \<Rightarrow> 'a io" where
  "query f s = (Inr (f (committed s)), s)"

definition exec :: "(session \<Rightarrow> session) \<Rightarrow> unit io" where
  "exec f s = (Inr (), f s)"

text \<open>
  \<^verbatim>\<open>transaction.commit()\<close> and \<^verbatim>\<open>transaction.rollback()\<close>, methods of the query builder's
  \<^verbatim>\<open>Transaction\<close> class. Either throws when the transaction is already finished, with
  the message of the library. Otherwise it marks the transaction finished, by a commit
  or by a rollback, whether its database call succeeds or throws. A commit that
  succeeds installs the transaction's view of the database, a rollback that succeeds
  drops it; one that throws does neither.
\<close>

definition finishedName :: "finishedState \<Rightarrow> string" where
  "finishedName f = (case f of FinishedCommit \<Rightarrow> ''commit'' | FinishedRollback \<Rightarrow> ''rollback'')"

definition commit :: "faults \<Rightarrow> unit io" where
  "commit fault s =
     (case finished s of
        Some f \<Rightarrow>
          (Inl (Err Error
             (''Transaction cannot be committed because it has been finished with state: ''
              @ finishedName f)), s)
      | None \<Rightarrow>
          (case fault Commit of
             Some e \<Rightarrow> (Inl e, s\<lparr>finished := Some FinishedCommit\<rparr>)
           | None \<Rightarrow> (Inr (), s\<lparr>committed := working s, finished := Some FinishedCommit\<rparr>)))"

definition rollback :: "faults \<Rightarrow> unit io" where
  "rollback fault s =
     (case finished s of
        Some f \<Rightarrow>
          (Inl (Err Error
             (''Transaction cannot be rolled back because it has been finished with state: ''
              @ finishedName f)), s)
      | None \<Rightarrow>
          (case fault Rollback of
             Some e \<Rightarrow> (Inl e, s\<lparr>finished := Some FinishedRollback\<rparr>)
           | None \<Rightarrow> (Inr (), s\<lparr>working := committed s, finished := Some FinishedRollback\<rparr>)))"

section \<open>Queries\<close>

text \<open>
  A \<^verbatim>\<open>where\<close> object with a player id and at most one lower bound on each timestamp
  column. The bound itself may be \<^verbatim>\<open>undefined\<close>. A row whose column is null passes
  no comparison.
\<close>

record whereOptions =
  w_playerId :: int
  w_createdAt :: "date option option"
  w_updatedAt :: "date option option"

definition sqlGte :: "env \<Rightarrow> date option \<Rightarrow> date option \<Rightarrow> bool" where
  "sqlGte ev col bound =
     (case col of
        None \<Rightarrow> False
      | Some v \<Rightarrow> (case bound of None \<Rightarrow> gteUndefined ev | Some b \<Rightarrow> b \<le> v))"

definition whereMatches ::
  "env \<Rightarrow> whereOptions \<Rightarrow> int \<Rightarrow> date option \<Rightarrow> date option \<Rightarrow> bool" where
  "whereMatches ev w pid cAt uAt =
     (pid = w_playerId w
      \<and> (case w_createdAt w of None \<Rightarrow> True | Some b \<Rightarrow> sqlGte ev cAt b)
      \<and> (case w_updatedAt w of None \<Rightarrow> True | Some b \<Rightarrow> sqlGte ev uAt b))"

definition snapshotMatches :: "env \<Rightarrow> whereOptions \<Rightarrow> snapshot \<Rightarrow> bool" where
  "snapshotMatches ev w r = whereMatches ev w (s_playerId r) (s_createdAt r) None"

definition participationMatches :: "env \<Rightarrow> whereOptions \<Rightarrow> participation \<Rightarrow> bool" where
  "participationMatches ev w r =
     whereMatches ev w (pt_playerId r) (Some (pt_createdAt r)) (Some (pt_updatedAt r))"

definition membershipMatches :: "env \<Rightarrow> whereOptions \<Rightarrow> membership \<Rightarrow> bool" where
  "membershipMatches ev w r =
     whereMatches ev w (m_playerId r) (Some (m_createdAt r)) (Some (m_updatedAt r))"

definition recordMatches :: "env \<Rightarrow> whereOptions \<Rightarrow> recordRow \<Rightarrow> bool" where
  "recordMatches ev w r = whereMatches ev w (r_playerId r) None (Some (r_updatedAt r))"

text \<open>
  Modelled from the spec: \<^verbatim>\<open>playerService.find\<close> is not among the sources. It is the
  identity lookup \<open>findByName(name)\<close>, the tracked identity whose current name is the
  given one, or nothing.
\<close>

definition find_player :: "db \<Rightarrow> string \<Rightarrow> player option" where
  "find_player d name = List.find (\<lambda>p. p_username p = name) (players d)"

text \<open>
  Modelled from the spec: \<^verbatim>\<open>snapshotService.findLatest\<close> is not among the sources. It
  is the transition resolver: the most recent snapshot of the player, or nothing when
  the player has no snapshot.
\<close>

fun latestOf :: "snapshot list \<Rightarrow> snapshot option" where
  "latestOf [] = None"
| "latestOf (x # xs) =
     (case latestOf xs of
        None \<Rightarrow> Some x
      | Some y \<Rightarrow>
          (case (s_createdAt x, s_createdAt y) of
             (Some a, Some b) \<Rightarrow> if b \<le> a then Some x else Some y
           | (Some a, None) \<Rightarrow> Some x
           | (None, _) \<Rightarrow> Some y))"

definition findLatest :: "db \<Rightarrow> int \<Rightarrow> snapshot option" where
  "findLatest d pid = latestOf (filter (\<lambda>r. s_playerId r = pid) (snapshots d))"

definition NameChange_findOne :: "db \<Rightarrow> int \<Rightarrow> nameChange option" where
  "NameChange_findOne d i = List.find (\<lambda>n. nc_id n = i) (nameChanges d)"

definition NameChange_findPending :: "db \<Rightarrow> string \<Rightarrow> string \<Rightarrow> nameChange option" where
  "NameChange_findPending d oldName newName =
     List.find (\<lambda>n. nc_oldName n = oldName \<and> nc_newName n = newName \<and> nc_status n = PENDING)
       (nameChanges d)"

section \<open>Writes\<close>

text \<open>
  \<^verbatim>\<open>bulkCreate\<close> with \<^verbatim>\<open>ignoreDuplicates\<close>: the rows are inserted one after the other,
  and a row whose unique key is already in the table is skipped. \<open>assign\<close> fills in
  what the database generates for a new row.
\<close>

definition insertIgnore ::
  "('r \<Rightarrow> 'k) \<Rightarrow> ('r list \<Rightarrow> 'r \<Rightarrow> 'r) \<Rightarrow> 'r list \<Rightarrow> 'r list \<Rightarrow> 'r list" where
  "insertIgnore key assign rows tbl =
     fold (\<lambda>r t. if key r \<in> set (map key t) then t else t @ [assign t r]) rows tbl"

text \<open>
  Modelled from the spec: the declarations of the \<^verbatim>\<open>Snapshot\<close> and \<^verbatim>\<open>Participation\<close>
  models are not among the sources. The conflict key of a snapshot is
  (identityId, createdAt), that of a participation is (identityId, eventId).
\<close>

definition snapshotKey :: "snapshot \<Rightarrow> int \<times> date option" where
  "snapshotKey r = (s_playerId r, s_createdAt r)"

definition participationKey :: "participation \<Rightarrow> int \<times> int" where
  "participationKey r = (pt_playerId r, pt_competitionId r)"

text \<open>The unique index of the membership model, on \<^verbatim>\<open>playerId\<close> and \<^verbatim>\<open>groupId\<close>.\<close>

definition membershipKey :: "membership \<Rightarrow> int \<times> int" where
  "membershipKey r = (m_playerId r, m_groupId r)"

definition nextId :: "int list \<Rightarrow> int" where
  "nextId ids = fold max ids 0 + 1"

definition snapshotIds :: "snapshot list \<Rightarrow> int list" where
  "snapshotIds t = concat (map (\<lambda>r. case s_id r of None \<Rightarrow> [] | Some i \<Rightarrow> [i]) t)"

definition Snapshot_bulkCreate :: "snapshot list \<Rightarrow> transaction option \<Rightarrow> session \<Rightarrow> session" where
  "Snapshot_bulkCreate rows t =
     writeDb t (\<lambda>d. d\<lparr>snapshots :=
       insertIgnore snapshotKey (\<lambda>tbl r. r\<lparr>s_id := Some (nextId (snapshotIds tbl))\<rparr>)
         rows (snapshots d)\<rparr>)"

definition Participation_bulkCreate ::
  "participation list \<Rightarrow> transaction option \<Rightarrow> session \<Rightarrow> session" where
  "Participation_bulkCreate rows t =
     writeDb t (\<lambda>d. d\<lparr>participations :=
       insertIgnore participationKey (\<lambda>tbl r. r) rows (participations d)\<rparr>)"

definition Membership_bulkCreate ::
  "membership list \<Rightarrow> transaction option \<Rightarrow> session \<Rightarrow> session" where
  "Membership_bulkCreate rows t =
     writeDb t (\<lambda>d. d\<lparr>memberships :=
       insertIgnore membershipKey (\<lambda>tbl r. r) rows (memberships d)\<rparr>)"

text \<open>
  \<^verbatim>\<open>record.update({ value })\<close> writes the value, and the time of the update, to the row
  of the instance.
\<close>

definition sameRecord :: "recordRow \<Rightarrow> recordRow \<Rightarrow> bool" where
  "sameRecord a b =
     (r_playerId a = r_playerId b \<and> r_metric a = r_metric b \<and> r_period a = r_period b)"

definition Record_update ::
  "date \<Rightarrow> transaction option \<Rightarrow> recordRow \<times> int \<Rightarrow> session \<Rightarrow> session" where
  "Record_update now t u =
     writeDb t (\<lambda>d. d\<lparr>records :=
       map (\<lambda>r. if sameRecord r (fst u) then r\<lparr>r_value := snd u, r_updatedAt := now\<rparr> else r)
         (records d)\<rparr>)"

text \<open>
  \<^verbatim>\<open>destroy\<close> deletes the row of the instance; the memberships of the player go with it
  (\<^verbatim>\<open>onDelete: 'CASCADE'\<close> in the membership model), and so do its snapshots,
  participations and records where the environment says that these models cascade.
  Requests stay: the spec has them never deleted. \<^verbatim>\<open>save\<close> is an update of the changed
  fields of the row with the instance's id: where there is no such row, nothing changes.
\<close>

definition cascade :: "bool \<Rightarrow> ('r \<Rightarrow> int) \<Rightarrow> int \<Rightarrow> 'r list \<Rightarrow> 'r list" where
  "cascade on owner pid rows = (if on then filter (\<lambda>r. owner r \<noteq> pid) rows else rows)"

definition Player_destroy :: "env \<Rightarrow> player \<Rightarrow> transaction option \<Rightarrow> session \<Rightarrow> session" where
  "Player_destroy ev p t =
     writeDb t (\<lambda>d.
       \<lparr>players = filter (\<lambda>q. p_id q \<noteq> p_id p) (players d),
        nameChanges = nameChanges d,
        snapshots = cascade (cascadeSnapshots ev) s_playerId (p_id p) (snapshots d),
        participations = cascade (cascadeParticipations ev) pt_playerId (p_id p) (participations d),
        memberships = filter (\<lambda>m. m_playerId m \<noteq> p_id p) (memberships d),
        records = cascade (cascadeRecords ev) r_playerId (p_id p) (records d)\<rparr>)"

definition Player_save :: "player \<Rightarrow> transaction option \<Rightarrow> session \<Rightarrow> session" where
  "Player_save p t =
     writeDb t (\<lambda>d. d\<lparr>players :=
       map (\<lambda>q. if p_id q = p_id p
                 then q\<lparr>p_username := p_username p, p_displayName := p_displayName p\<rparr>
                 else q)
         (players d)\<rparr>)"

definition NameChange_update :: "int \<Rightarrow> (nameChange \<Rightarrow> nameChange) \<Rightarrow> db \<Rightarrow> db" where
  "NameChange_update i f d =
     d\<lparr>nameChanges := map (\<lambda>n. if nc_id n = i then f n else n) (nameChanges d)\<rparr>"

text \<open>
  Modelled from the spec: the declaration of the \<^verbatim>\<open>NameChange\<close> model is not among the
  sources. A request is created PENDING, with no resolution date; its id is generated.
\<close>

definition NameChange_create :: "date \<Rightarrow> int \<Rightarrow> string \<Rightarrow> string \<Rightarrow> db \<Rightarrow> nameChange" where
  "NameChange_create now pid oldName newName d =
     \<lparr>nc_id = nextId (map nc_id (nameChanges d)), nc_playerId = pid,
      nc_oldName = oldName, nc_newName = newName,
      nc_status = PENDING, nc_resolvedAt = None, nc_createdAt = now\<rparr>"

section \<open>The merge engine\<close>

definition transferSnapshots ::
  "env \<Rightarrow> faults \<Rightarrow> whereOptions \<Rightarrow> int \<Rightarrow> transaction \<Rightarrow> unit io" where
  "transferSnapshots ev fault filter_w targetId transaction =
     await (call fault FindSnapshots
              (query (\<lambda>d. filter (snapshotMatches ev filter_w) (snapshots d))))
       (\<lambda>newSnapshots.
          let movedSnapshots =
                map (\<lambda>s. s\<lparr>s_playerId := targetId, s_id := None\<rparr>) newSnapshots
          in call fault CreateSnapshots
               (exec (Snapshot_bulkCreate movedSnapshots (Some transaction))))"

definition transferParticipations ::
  "env \<Rightarrow> faults \<Rightarrow> whereOptions \<Rightarrow> int \<Rightarrow> transaction \<Rightarrow> unit io" where
  "transferParticipations ev fault filter_w targetId transaction =
     await (call fault FindParticipations
              (query (\<lambda>d. filter (participationMatches ev filter_w) (participations d))))
       (\<lambda>newParticipations.
          let movedParticipations =
                map (\<lambda>ns. ns\<lparr>pt_playerId := targetId\<rparr>) newParticipations
          in call fault CreateParticipations
               (exec (Participation_bulkCreate movedParticipations (Some transaction))))"

definition transferMemberships ::
  "env \<Rightarrow> faults \<Rightarrow> whereOptions \<Rightarrow> int \<Rightarrow> transaction \<Rightarrow> unit io" where
  "transferMemberships ev fault filter_w targetId transaction =
     await (call fault FindMemberships
              (query (\<lambda>d. filter (membershipMatches ev filter_w) (memberships d))))
       (\<lambda>newMemberships.
          let movedMemberships =
                map (\<lambda>ns. ns\<lparr>m_playerId := targetId\<rparr>) newMemberships
          in call fault CreateMemberships
               (exec (Membership_bulkCreate movedMemberships (Some transaction))))"

text \<open>
  The \<^verbatim>\<open>forEach\<close> of \<^verbatim>\<open>transferRecords\<close>: for each recent record of the new player, the
  first record of the old player with the same metric and period, when its value is
  lower, with the value to write.
\<close>

definition outdatedOf :: "recordRow list \<Rightarrow> recordRow list \<Rightarrow> (recordRow \<times> int) list" where
  "outdatedOf oldRecords newRecords =
     concat (map (\<lambda>n.
       case List.find (\<lambda>r. r_metric r = r_metric n \<and> r_period r = r_period n) oldRecords of
         None \<Rightarrow> []
       | Some oldEquivalent \<Rightarrow>
           if r_value oldEquivalent < r_value n then [(oldEquivalent, r_value n)] else [])
       newRecords)"

definition transferRecords ::
  "env \<Rightarrow> faults \<Rightarrow> date \<Rightarrow> whereOptions \<Rightarrow> int \<Rightarrow> transaction \<Rightarrow> unit io" where
  "transferRecords ev fault now filter_w targetId transaction =
     await (call fault FindOldRecords
              (query (\<lambda>d. filter (\<lambda>r. r_playerId r = targetId) (records d))))
       (\<lambda>oldRecords.
     await (call fault FindNewRecords
              (query (\<lambda>d. filter (recordMatches ev filter_w) (records d))))
       (\<lambda>newRecords.
          let outdated = outdatedOf oldRecords newRecords
          in call fault UpdateRecords
               (exec (fold (Record_update now (Some transaction)) outdated))))"

text \<open>The body of the \<^verbatim>\<open>try\<close> block of \<^verbatim>\<open>transferData\<close>, the commit included.\<close>

definition tryTransfer ::
  "env \<Rightarrow> faults \<Rightarrow> date \<Rightarrow> transaction \<Rightarrow> date option \<Rightarrow> string \<Rightarrow>
   player \<Rightarrow> player option \<Rightarrow> unit io" where
  "tryTransfer ev fault now transaction transitionDate standardizedName oldPlayer newPlayer =
     await
       (case newPlayer of
          None \<Rightarrow> exec (\<lambda>s. s)
        | Some np \<Rightarrow>
            let createdFilter =
                  \<lparr>w_playerId = p_id np, w_createdAt = Some transitionDate, w_updatedAt = None\<rparr>;
                updatedFilter =
                  \<lparr>w_playerId = p_id np, w_createdAt = None, w_updatedAt = Some transitionDate\<rparr>
            in
            await (transferRecords ev fault now updatedFilter (p_id oldPlayer) transaction) (\<lambda>_.
            await (transferSnapshots ev fault createdFilter (p_id oldPlayer) transaction) (\<lambda>_.
            await (transferMemberships ev fault createdFilter (p_id oldPlayer) transaction) (\<lambda>_.
            await (transferParticipations ev fault createdFilter (p_id oldPlayer) transaction) (\<lambda>_.
            call fault DestroyPlayer (exec (Player_destroy ev np (Some transaction))))))))
       (\<lambda>_.
          let oldPlayer' =
                oldPlayer\<lparr>p_username := standardizedName, p_displayName := standardizedName\<rparr>
          in
          await (call fault SavePlayer (exec (Player_save oldPlayer' (Some transaction)))) (\<lambda>_.
          commit fault))"

text \<open>
  \<^verbatim>\<open>transferData\<close>, with the transaction it leaves behind. The transaction is opened and
  the transition date read before the \<^verbatim>\<open>try\<close>: when opening it throws there is no
  transaction, and when reading the date throws the transaction is left as it is, open.
  An error inside the \<^verbatim>\<open>try\<close>, the commit included, is caught; the \<^verbatim>\<open>catch\<close> block
  awaits the rollback and then throws the error again, so when the rollback throws, it
  is the error of the rollback that leaves \<^verbatim>\<open>transferData\<close>.
\<close>

definition transferDataTx ::
  "env \<Rightarrow> faults \<Rightarrow> date \<Rightarrow> player \<Rightarrow> player option \<Rightarrow> string \<Rightarrow> db \<Rightarrow>
   (error + unit) \<times> session option" where
  "transferDataTx ev fault now oldPlayer newPlayer newName d =
     (case fault BeginTransaction of
        Some e \<Rightarrow> (Inl e, None)
      | None \<Rightarrow>
          let transaction = Transaction; s0 = beginTransaction d in
          (case call fault FindLatest (query (\<lambda>c. findLatest c (p_id oldPlayer))) s0 of
             (Inl e, s1) \<Rightarrow> (Inl e, Some s1)
           | (Inr latest, s1) \<Rightarrow>
               let transitionDate = (case latest of None \<Rightarrow> None | Some sn \<Rightarrow> s_createdAt sn);
                   standardizedName = standardize ev newName
               in
               (case tryTransfer ev fault now transaction transitionDate standardizedName
                       oldPlayer newPlayer s1 of
                  (Inl e, s2) \<Rightarrow>
                    (case rollback fault s2 of
                       (Inl e', s3) \<Rightarrow> (Inl e', Some s3)
                     | (Inr u, s3) \<Rightarrow> (Inl e, Some s3))
                | (Inr u, s2) \<Rightarrow> (Inr (), Some s2))))"

text \<open>
  \<^verbatim>\<open>transferData\<close> as the rest of the service sees it: the outcome and the committed
  database.
\<close>

definition transferData ::
  "env \<Rightarrow> faults \<Rightarrow> date \<Rightarrow> player \<Rightarrow> player option \<Rightarrow> string \<Rightarrow> db \<Rightarrow>
   (error + unit) \<times> db" where
  "transferData ev fault now oldPlayer newPlayer newName d =
     (case transferDataTx ev fault now oldPlayer newPlayer newName d of
        (r, None) \<Rightarrow> (r, d)
      | (r, Some s) \<Rightarrow> (r, committed s))"

section \<open>The request lifecycle\<close>

definition submit :: "date \<Rightarrow> string \<Rightarrow> string \<Rightarrow> db \<Rightarrow> (error + nameChange) \<times> db" where
  "submit now oldName newName d =
     (case find_player d oldName of
        None \<Rightarrow>
          (Inl (Err BadRequestError
                  (''Player '' @ [CHR 0x27] @ oldName @ [CHR 0x27] @ '' is not tracked yet.'')), d)
      | Some oldPlayer \<Rightarrow>
          (case NameChange_findPending d oldName newName of
             Some pendingRequest \<Rightarrow>
               (Inl (Err BadRequestError
                  (''There'' @ [CHR 0x27] @ ''s already a similar pending name change request.'')), d)
           | None \<Rightarrow>
               let nameChange = NameChange_create now (p_id oldPlayer) oldName newName d
               in (Inr nameChange, d\<lparr>nameChanges := nameChanges d @ [nameChange]\<rparr>)))"

definition deny :: "env \<Rightarrow> int \<Rightarrow> string \<Rightarrow> db \<Rightarrow> (error + nameChange) \<times> db" where
  "deny ev i adminPassword d =
     (case NameChange_findOne d i of
        None \<Rightarrow> (Inl (Err NotFoundError ''Name change id was not found.''), d)
      | Some nameChange \<Rightarrow>
          if nc_status nameChange \<noteq> PENDING
          then (Inl (Err BadRequestError ''Name change status must be PENDING''), d)
          else if adminPassword \<noteq> ADMIN_PASSWORD ev
          then (Inl (Err BadRequestError ''Incorrect password.''), d)
          else (Inr (nameChange\<lparr>nc_status := DENIED\<rparr>),
                NameChange_update (nc_id nameChange) (\<lambda>n. n\<lparr>nc_status := DENIED\<rparr>) d))"

definition approve ::
  "env \<Rightarrow> faults \<Rightarrow> date \<Rightarrow> int \<Rightarrow> string \<Rightarrow> db \<Rightarrow> (error + nameChange) \<times> db" where
  "approve ev fault now i adminPassword d =
     (case NameChange_findOne d i of
        None \<Rightarrow> (Inl (Err NotFoundError ''Name change id was not found.''), d)
      | Some nameChange \<Rightarrow>
          if nc_status nameChange \<noteq> PENDING
          then (Inl (Err BadRequestError ''Name change status must be PENDING''), d)
          else if adminPassword \<noteq> ADMIN_PASSWORD ev
          then (Inl (Err BadRequestError ''Incorrect password.''), d)
          else
            let oldPlayer = find_player d (nc_oldName nameChange);
                newPlayer = find_player d (nc_newName nameChange)
            in
            (case oldPlayer of
               None \<Rightarrow>
                 (Inl (Err ServerError ''Old Player cannot be found in the database anymore.''), d)
             | Some op \<Rightarrow>
                 (case transferData ev fault now op newPlayer (nc_newName nameChange) d of
                    (Inl e, d') \<Rightarrow> (Inl e, d')
                  | (Inr u, d') \<Rightarrow>
                      (Inr (nameChange\<lparr>nc_status := APPROVED, nc_resolvedAt := Some now\<rparr>),
                       NameChange_update (nc_id nameChange)
                         (\<lambda>n. n\<lparr>nc_status := APPROVED, nc_resolvedAt := Some now\<rparr>) d'))))"

section \<open>The comparison report\<close>

record details =
  dt_nameChange :: nameChange
  dt_isNewOnHiscores :: bool
  dt_isOldOnHiscores :: bool
  dt_isNewTracked :: bool
  dt_hasNegativeGains :: bool
  dt_timeDiff :: int
  dt_hoursDiff :: real
  dt_ehpDiff :: real
  dt_ehbDiff :: real
  dt_oldStats :: string
  dt_newStats :: string

text \<open>
  The two \<^verbatim>\<open>try\<close> blocks of \<^verbatim>\<open>getDetails\<close>: a \<^verbatim>\<open>ServerError\<close> of the hiscores lookup
  is thrown again, any other error leaves the variable undefined.
\<close>

definition tryHiscores :: "env \<Rightarrow> string \<Rightarrow> error + int list option" where
  "tryHiscores ev name =
     (case getHiscoresData ev name of
        Inr h \<Rightarrow> Inr (Some h)
      | Inl e \<Rightarrow> if errClass e = ServerError then Inl e else Inr None)"

definition nullRead :: "string \<Rightarrow> error" where
  "nullRead prop =
     Err TypeError (''Cannot read property '' @ [CHR 0x27] @ prop @ [CHR 0x27] @ '' of null'')"

text \<open>
  \<^verbatim>\<open>getDetails\<close> reads \<^verbatim>\<open>oldPlayer.id\<close> and \<^verbatim>\<open>oldStats.createdAt\<close> as the source does,
  with no test that the object is there: the read of a property of \<^verbatim>\<open>null\<close> throws a
  \<^verbatim>\<open>TypeError\<close>. The quotient \<open>hoursDiff\<close> is taken in the reals.
\<close>

definition getDetails :: "env \<Rightarrow> date \<Rightarrow> int \<Rightarrow> db \<Rightarrow> error + details" where
  "getDetails ev now i d =
     (case NameChange_findOne d i of
        None \<Rightarrow> Inl (Err NotFoundError ''Name change id was not found.'')
      | Some nameChange \<Rightarrow>
     (case tryHiscores ev (nc_newName nameChange) of
        Inl e \<Rightarrow> Inl e
      | Inr newHiscores \<Rightarrow>
     (case tryHiscores ev (nc_oldName nameChange) of
        Inl e \<Rightarrow> Inl e
      | Inr oldHiscores \<Rightarrow>
     let oldPlayer = find_player d (nc_oldName nameChange);
         newPlayer = find_player d (nc_newName nameChange)
     in
     (case oldPlayer of
        None \<Rightarrow> Inl (nullRead ''id'')
      | Some op \<Rightarrow>
     let oldStats = findLatest d (p_id op);
         fromHiscores = (case newHiscores of None \<Rightarrow> None | Some h \<Rightarrow> Some (fromRS ev (- 1) h))
     in
     (case (case newPlayer of
              None \<Rightarrow> Inr fromHiscores
            | Some np \<Rightarrow>
                (case oldStats of
                   None \<Rightarrow> Inl (nullRead ''createdAt'')
                 | Some os \<Rightarrow>
                     (case findFirstSince ev d (p_id np) (s_createdAt os) of
                        None \<Rightarrow> Inr fromHiscores
                      | Some postChangeSnapshot \<Rightarrow> Inr (Some postChangeSnapshot)))) of
        Inl e \<Rightarrow> Inl e
      | Inr newStats \<Rightarrow>
     let afterDate =
           (case newStats of
              None \<Rightarrow> now
            | Some ns \<Rightarrow> (case s_createdAt ns of None \<Rightarrow> now | Some c \<Rightarrow> c))
     in
     (case oldStats of
        None \<Rightarrow> Inl (nullRead ''createdAt'')
      | Some os \<Rightarrow>
     (case s_createdAt os of
        None \<Rightarrow> Inl (nullRead ''getTime'')
      | Some oldCreatedAt \<Rightarrow>
     let timeDiff = afterDate - oldCreatedAt in
     Inr \<lparr>dt_nameChange = nameChange,
          dt_isNewOnHiscores = (newHiscores \<noteq> None),
          dt_isOldOnHiscores = (oldHiscores \<noteq> None),
          dt_isNewTracked = (newPlayer \<noteq> None),
          dt_hasNegativeGains =
            (case newStats of None \<Rightarrow> False | Some ns \<Rightarrow> hasNegativeGains ev os ns),
          dt_timeDiff = timeDiff,
          dt_hoursDiff = real_of_int timeDiff / 1000 / 60 / 60,
          dt_ehpDiff = (case newStats of None \<Rightarrow> 0 | Some ns \<Rightarrow> calculateEHPDiff ev os ns),
          dt_ehbDiff = (case newStats of None \<Rightarrow> 0 | Some ns \<Rightarrow> calculateEHBDiff ev os ns),
          dt_oldStats = format ev (Some os),
          dt_newStats = format ev newStats\<rparr>)))))))"

section \<open>Auxiliary definitions and example data\<close>

text \<open>The class of the error an operation threw, if it threw.\<close>

definition thrown :: "(error + 'a) \<times> db \<Rightarrow> errorClass option" where
  "thrown r = (case fst r of Inl e \<Rightarrow> Some (errClass e) | Inr _ \<Rightarrow> None)"

text \<open>
  An environment and a database for concrete runs. Player 1 is \<^verbatim>\<open>bob\<close>, whose last
  snapshot is at time 100; player 2 is \<^verbatim>\<open>bobby\<close>, with a snapshot, a participation, a
  membership and a record after that time. Request 1 asks to rename \<^verbatim>\<open>bob\<close> to \<^verbatim>\<open>bobby\<close>.
\<close>

definition env0 :: env where
  "env0 =
     \<lparr>ADMIN_PASSWORD = ''secret'', standardize = (\<lambda>n. n), gteUndefined = False,
      cascadeSnapshots = True, cascadeParticipations = True, cascadeRecords = True,
      getHiscoresData = (\<lambda>n. Inl (Err BadRequestError ''not on hiscores'')),
      fromRS = (\<lambda>pid h. \<lparr>s_id = None, s_playerId = pid, s_createdAt = None, s_stats = h\<rparr>),
      findFirstSince = (\<lambda>d pid t. None),
      calculateEHPDiff = (\<lambda>a b. 0), calculateEHBDiff = (\<lambda>a b. 0),
      hasNegativeGains = (\<lambda>a b. False), format = (\<lambda>s. [])\<rparr>"

definition db0 :: db where
  "db0 =
     \<lparr>players =
        [\<lparr>p_id = 1, p_username = ''bob'', p_displayName = ''bob''\<rparr>,
         \<lparr>p_id = 2, p_username = ''bobby'', p_displayName = ''bobby''\<rparr>],
      nameChanges =
        [\<lparr>nc_id = 1, nc_playerId = 1, nc_oldName = ''bob'', nc_newName = ''bobby'',
          nc_status = PENDING, nc_resolvedAt = None, nc_createdAt = 5\<rparr>],
      snapshots =
        [\<lparr>s_id = Some 1, s_playerId = 1, s_createdAt = Some 100, s_stats = [1]\<rparr>,
         \<lparr>s_id = Some 2, s_playerId = 2, s_createdAt = Some 220, s_stats = [2]\<rparr>],
      participations =
        [\<lparr>pt_playerId = 2, pt_competitionId = 4, pt_createdAt = 130, pt_updatedAt = 130\<rparr>],
      memberships =
        [\<lparr>m_playerId = 2, m_groupId = 7, m_role = ''member'',
          m_createdAt = 150, m_updatedAt = 150\<rparr>],
      records =
        [\<lparr>r_playerId = 1, r_metric = ''attack'', r_period = ''week'',
          r_value = 100, r_updatedAt = 90\<rparr>,
         \<lparr>r_playerId = 2, r_metric = ''attack'', r_period = ''week'',
          r_value = 150, r_updatedAt = 160\<rparr>,
         \<lparr>r_playerId = 2, r_metric = ''magic'', r_period = ''week'',
          r_value = 50, r_updatedAt = 170\<rparr>]\<rparr>"

text \<open>
  Proof devices. \<open>inTx\<close> holds of a call that leaves the committed database alone and
  the transaction open or finished as it was, and throws only what the fault plan holds
  for a step other than the commit and the rollback. \<open>executed\<close> are the database calls a merge
  reaches when nothing throws. \<open>applyUpdates\<close> is what a series of record updates does
  to one row, and \<open>merged\<close> the database a merge with a present new player commits.
\<close>

definition inTx :: "faults \<Rightarrow> 'a io \<Rightarrow> bool" where
  "inTx fault m =
     (\<forall>s r s'. m s = (r, s') \<longrightarrow>
        committed s' = committed s \<and> finished s' = finished s
        \<and> (\<forall>e. r = Inl e \<longrightarrow> (\<exists>st. st \<noteq> Commit \<and> st \<noteq> Rollback \<and> fault st = Some e)))"

definition executed :: "player option \<Rightarrow> step \<Rightarrow> bool" where
  "executed newPlayer st =
     (st \<noteq> Rollback
      \<and> (newPlayer \<noteq> None \<or> st \<in> {BeginTransaction, FindLatest, SavePlayer, Commit}))"

definition applyUpdates :: "date \<Rightarrow> (recordRow \<times> int) list \<Rightarrow> recordRow \<Rightarrow> recordRow" where
  "applyUpdates now us r =
     fold (\<lambda>u r. if sameRecord r (fst u) then r\<lparr>r_value := snd u, r_updatedAt := now\<rparr> else r) us r"

definition merged :: "env \<Rightarrow> date \<Rightarrow> player \<Rightarrow> player \<Rightarrow> string \<Rightarrow> db \<Rightarrow> db" where
  "merged ev now oldPlayer np newName d =
     (let td = (case findLatest d (p_id oldPlayer) of None \<Rightarrow> None | Some sn \<Rightarrow> s_createdAt sn);
          cf = \<lparr>w_playerId = p_id np, w_createdAt = Some td, w_updatedAt = None\<rparr>;
          uf = \<lparr>w_playerId = p_id np, w_createdAt = None, w_updatedAt = Some td\<rparr>;
          sn = standardize ev newName
      in
      \<lparr>players =
         map (\<lambda>q. if p_id q = p_id oldPlayer then q\<lparr>p_username := sn, p_displayName := sn\<rparr> else q)
           (filter (\<lambda>q. p_id q \<noteq> p_id np) (players d)),
       nameChanges = nameChanges d,
       snapshots =
         cascade (cascadeSnapshots ev) s_playerId (p_id np)
           (insertIgnore snapshotKey (\<lambda>tbl r. r\<lparr>s_id := Some (nextId (snapshotIds tbl))\<rparr>)
              (map (\<lambda>s. s\<lparr>s_playerId := p_id oldPlayer, s_id := None\<rparr>)
                 (filter (snapshotMatches ev cf) (snapshots d)))
              (snapshots d)),
       participations =
         cascade (cascadeParticipations ev) pt_playerId (p_id np)
           (insertIgnore participationKey (\<lambda>tbl r. r)
              (map (\<lambda>ns. ns\<lparr>pt_playerId := p_id oldPlayer\<rparr>)
                 (filter (participationMatches ev cf) (participations d)))
              (participations d)),
       memberships =
         filter (\<lambda>m. m_playerId m \<noteq> p_id np)
           (insertIgnore membershipKey (\<lambda>tbl r. r)
              (map (\<lambda>ns. ns\<lparr>m_playerId := p_id oldPlayer\<rparr>)
                 (filter (membershipMatches ev cf) (memberships d)))
              (memberships d)),
       records =
         cascade (cascadeRecords ev) r_playerId (p_id np)
           (map (applyUpdates now
                   (outdatedOf (filter (\<lambda>r. r_playerId r = p_id oldPlayer) (records d))
                      (filter (recordMatches ev uf) (records d))))
              (records d))\<rparr>)"

text \<open>
  Fault plans in which one call throws: saving the renamed player, committing, and
  reading the old player's latest snapshot.
\<close>

definition faultAtSave :: faults where
  "faultAtSave = noFaults(SavePlayer := Some (Err Error ''connection lost''))"

definition faultAtCommit :: faults where
  "faultAtCommit = noFaults(Commit := Some (Err Error ''connection lost''))"

definition faultAtFindLatest :: faults where
  "faultAtFindLatest = noFaults(FindLatest := Some (Err Error ''connection lost''))"


text \<open>
  The key of a best-record row, and the row a player has for a metric and a period.
\<close>

definition recordKey :: "recordRow \<Rightarrow> int \<times> string \<times> string" where
  "recordKey r = (r_playerId r, r_metric r, r_period r)"

definition Record_findOne :: "db \<Rightarrow> int \<Rightarrow> string \<Rightarrow> string \<Rightarrow> recordRow option" where
  "Record_findOne d pid metric period =
     List.find (\<lambda>r. r_playerId r = pid \<and> r_metric r = metric \<and> r_period r = period) (records d)"

text \<open>
  A database with two requests whose old player cannot be compared: \<^verbatim>\<open>carol\<close> is tracked
  and has no snapshot, \<^verbatim>\<open>dave\<close> is not tracked.
\<close>

definition db1 :: db where
  "db1 =
     \<lparr>players = [\<lparr>p_id = 3, p_username = ''carol'', p_displayName = ''Carol''\<rparr>],
      nameChanges =
        [\<lparr>nc_id = 1, nc_playerId = 3, nc_oldName = ''carol'', nc_newName = ''caz'',
          nc_status = PENDING, nc_resolvedAt = None, nc_createdAt = 5\<rparr>,
         \<lparr>nc_id = 2, nc_playerId = 4, nc_oldName = ''dave'', nc_newName = ''dan'',
          nc_status = PENDING, nc_resolvedAt = None, nc_createdAt = 6\<rparr>],
      snapshots = [], participations = [], memberships = [], records = []\<rparr>"

text \<open>
  Sequences of lifecycle operations, run one after the other on the database, whether
  they succeed or throw. \<open>oneTransition n n'\<close> relates a request to what it may be
  later: itself, or, when it is PENDING, itself denied, or itself approved with a
  resolution date.
\<close>

datatype operation =
    Submit date string string
  | Deny int string
  | Approve faults date int string

fun perform :: "env \<Rightarrow> operation \<Rightarrow> db \<Rightarrow> db" where
  "perform ev (Submit now oldName newName) d = snd (submit now oldName newName d)"
| "perform ev (Deny i adminPassword) d = snd (deny ev i adminPassword d)"
| "perform ev (Approve fault now i adminPassword) d = snd (approve ev fault now i adminPassword d)"

definition run :: "env \<Rightarrow> operation list \<Rightarrow> db \<Rightarrow> db" where
  "run ev ops d = fold (perform ev) ops d"

definition oneTransition :: "nameChange \<Rightarrow> nameChange \<Rightarrow> bool" where
  "oneTransition n n' =
     (n' = n
      \<or> (nc_status n = PENDING
          \<and> (n' = n\<lparr>nc_status := DENIED\<rparr>
              \<or> (nc_resolvedAt n' \<noteq> None
                  \<and> n' = n\<lparr>nc_status := APPROVED, nc_resolvedAt := nc_resolvedAt n'\<rparr>))))"

text \<open>
  One transfer step run in a transaction of its own, with no call throwing, as a function
  on the database: the transaction is committed when the step returns, and rolled back
  when it throws; and the filter \<^verbatim>\<open>createdFilter\<close> of \<^verbatim>\<open>transferData\<close> for a new player
  and a transition date that is there.
\<close>

definition runInTransaction :: "(transaction \<Rightarrow> unit io) \<Rightarrow> db \<Rightarrow> db" where
  "runInTransaction f d =
     (case f Transaction (beginTransaction d) of
        (Inl e, s) \<Rightarrow> committed (snd (rollback noFaults s))
      | (Inr u, s) \<Rightarrow> committed (snd (commit noFaults s)))"

definition createdSince :: "int \<Rightarrow> date \<Rightarrow> whereOptions" where
  "createdSince rid t = \<lparr>w_playerId = rid, w_createdAt = Some (Some t), w_updatedAt = None\<rparr>"

definition moveSnapshots :: "env \<Rightarrow> whereOptions \<Rightarrow> int \<Rightarrow> db \<Rightarrow> db" where
  "moveSnapshots ev w target = runInTransaction (transferSnapshots ev noFaults w target)"

definition moveParticipations :: "env \<Rightarrow> whereOptions \<Rightarrow> int \<Rightarrow> db \<Rightarrow> db" where
  "moveParticipations ev w target = runInTransaction (transferParticipations ev noFaults w target)"

definition moveMemberships :: "env \<Rightarrow> whereOptions \<Rightarrow> int \<Rightarrow> db \<Rightarrow> db" where
  "moveMemberships ev w target = runInTransaction (transferMemberships ev noFaults w target)"

text \<open>
  \<open>appendsCopies key selected moved strip before after\<close>: the table \<open>after\<close> is the table
  \<open>before\<close> with rows appended; each appended row is, up to the fields the database
  generates (removed by \<open>strip\<close>), the moved copy of a selected row of \<open>before\<close>, and
  its key is not in \<open>before\<close>; no two appended rows have the same key; and the key of
  the moved copy of every selected row is in \<open>after\<close>.
\<close>

definition appendsCopies ::
  "('r \<Rightarrow> 'k) \<Rightarrow> ('r \<Rightarrow> bool) \<Rightarrow> ('r \<Rightarrow> 'r) \<Rightarrow> ('r \<Rightarrow> 'r) \<Rightarrow> 'r list \<Rightarrow> 'r list \<Rightarrow> bool" where
  "appendsCopies key selected moved strip before after =
     (take (length before) after = before
      \<and> (\<forall>r \<in> set (drop (length before) after).
            (\<exists>q \<in> set before. selected q \<and> strip r = moved q)
            \<and> key r \<notin> set (map key before))
      \<and> distinct (map key (drop (length before) after))
      \<and> (\<forall>q \<in> set before. selected q \<longrightarrow> key (moved q) \<in> set (map key after)))"

section \<open>Basic facts\<close>

lemma fold_max_ge: "(a::int) \<le> fold max xs a"
  by (induction xs arbitrary: a) (auto intro: order_trans [OF max.cobounded2])

lemma fold_max_mem: "x \<in> set xs \<Longrightarrow> (x::int) \<le> fold max xs a"
proof (induction xs arbitrary: a)
  case Nil
  then show ?case by simp
next
  case (Cons y ys)
  show ?case
  proof (cases "x = y")
    case True
    have "y \<le> max y a" by simp
    also have "\<dots> \<le> fold max ys (max y a)" by (rule fold_max_ge)
    finally show ?thesis using True by simp
  next
    case False
    with Cons show ?thesis by simp
  qed
qed

lemma nextId_fresh: "nextId ids \<notin> set ids"
proof
  assume "nextId ids \<in> set ids"
  then have "nextId ids \<le> fold max ids 0" by (rule fold_max_mem)
  then show False by (simp add: nextId_def)
qed

lemma find_player_None:
  "(find_player d name = None) = (\<forall>p \<in> set (players d). p_username p \<noteq> name)"
  by (auto simp: find_player_def find_None_iff)

lemma findPending_None:
  "(NameChange_findPending d a b = None) =
   (\<forall>n \<in> set (nameChanges d).
      \<not> (nc_oldName n = a \<and> nc_newName n = b \<and> nc_status n = PENDING))"
  by (auto simp: NameChange_findPending_def find_None_iff)

lemma findOne_None:
  "(NameChange_findOne d i = None) = (\<forall>n \<in> set (nameChanges d). nc_id n \<noteq> i)"
  by (auto simp: NameChange_findOne_def find_None_iff)

lemma findOne_Some:
  "NameChange_findOne d i = Some nc \<Longrightarrow> nc \<in> set (nameChanges d) \<and> nc_id nc = i"
  by (auto simp: NameChange_findOne_def find_Some_iff)

lemma deny_failure_unchanged: "deny ev i pw d = (Inl e, d') \<Longrightarrow> d' = d"
  by (auto simp: deny_def split: option.splits if_splits)

subsection \<open>Calls inside a transaction\<close>

lemma committed_writeDb [simp]: "committed (writeDb (Some t) f s) = committed s"
  by (simp add: writeDb_def)

lemma working_writeDb [simp]: "working (writeDb (Some t) f s) = f (working s)"
  by (simp add: writeDb_def)

lemma finished_writeDb [simp]: "finished (writeDb t f s) = finished s"
  by (simp add: writeDb_def split: option.splits)

lemma inTx_query:
  "st \<noteq> Commit \<Longrightarrow> st \<noteq> Rollback \<Longrightarrow> inTx fault (call fault st (query f))"
  by (auto simp: inTx_def call_def query_def split: option.splits)

lemma inTx_exec:
  "st \<noteq> Commit \<Longrightarrow> st \<noteq> Rollback \<Longrightarrow>
   (\<And>s. committed (f s) = committed s \<and> finished (f s) = finished s) \<Longrightarrow>
   inTx fault (call fault st (exec f))"
  by (auto simp: inTx_def call_def exec_def split: option.splits)

lemma inTx_skip: "inTx fault (exec (\<lambda>s. s))"
  by (simp add: inTx_def exec_def)

lemma inTx_await: "inTx fault m \<Longrightarrow> (\<And>x. inTx fault (k x)) \<Longrightarrow> inTx fault (await m k)"
  unfolding inTx_def await_def
  by (fastforce split: prod.splits sum.splits)

lemma committed_fold_Record_update:
  "committed (fold (Record_update now (Some t)) us s) = committed s
   \<and> finished (fold (Record_update now (Some t)) us s) = finished s"
  by (induction us arbitrary: s) (simp_all add: Record_update_def)

lemma inTx_transferRecords: "inTx fault (transferRecords ev fault now w target t)"
  unfolding transferRecords_def Let_def
  by (intro inTx_await inTx_query inTx_exec committed_fold_Record_update) simp_all

lemma inTx_transferSnapshots: "inTx fault (transferSnapshots ev fault w target t)"
  unfolding transferSnapshots_def Let_def
  by (intro inTx_await inTx_query inTx_exec) (simp_all add: Snapshot_bulkCreate_def)

lemma inTx_transferMemberships: "inTx fault (transferMemberships ev fault w target t)"
  unfolding transferMemberships_def Let_def
  by (intro inTx_await inTx_query inTx_exec) (simp_all add: Membership_bulkCreate_def)

lemma inTx_transferParticipations: "inTx fault (transferParticipations ev fault w target t)"
  unfolding transferParticipations_def Let_def
  by (intro inTx_await inTx_query inTx_exec) (simp_all add: Participation_bulkCreate_def)

lemma inTx_merge:
  "inTx fault
     (case newPlayer of
        None \<Rightarrow> exec (\<lambda>s. s)
      | Some np \<Rightarrow>
          await (transferRecords ev fault now uf target t) (\<lambda>_.
          await (transferSnapshots ev fault cf target t) (\<lambda>_.
          await (transferMemberships ev fault cf target t) (\<lambda>_.
          await (transferParticipations ev fault cf target t) (\<lambda>_.
          call fault DestroyPlayer (exec (Player_destroy ev np (Some t))))))))"
proof (cases newPlayer)
  case None
  then show ?thesis by (simp add: inTx_skip)
next
  case (Some np)
  then show ?thesis
    by (simp, intro inTx_await inTx_transferRecords inTx_transferSnapshots
          inTx_transferMemberships inTx_transferParticipations inTx_exec)
       (simp_all add: Player_destroy_def)
qed

lemma tryTransfer_failure:
  assumes "tryTransfer ev fault now t td sn oldPlayer newPlayer s = (Inl e, s')"
    and "finished s = None"
  shows "committed s' = committed s
       \<and> ((finished s' = None \<and> (\<exists>st. st \<noteq> Commit \<and> st \<noteq> Rollback \<and> fault st = Some e))
          \<or> (finished s' = Some FinishedCommit \<and> fault Commit = Some e))"
proof -
  let ?merge = "case newPlayer of
        None \<Rightarrow> exec (\<lambda>s. s)
      | Some np \<Rightarrow>
          await (transferRecords ev fault now
                   \<lparr>w_playerId = p_id np, w_createdAt = None, w_updatedAt = Some td\<rparr>
                   (p_id oldPlayer) t) (\<lambda>_.
          await (transferSnapshots ev fault
                   \<lparr>w_playerId = p_id np, w_createdAt = Some td, w_updatedAt = None\<rparr>
                   (p_id oldPlayer) t) (\<lambda>_.
          await (transferMemberships ev fault
                   \<lparr>w_playerId = p_id np, w_createdAt = Some td, w_updatedAt = None\<rparr>
                   (p_id oldPlayer) t) (\<lambda>_.
          await (transferParticipations ev fault
                   \<lparr>w_playerId = p_id np, w_createdAt = Some td, w_updatedAt = None\<rparr>
                   (p_id oldPlayer) t) (\<lambda>_.
          call fault DestroyPlayer (exec (Player_destroy ev np (Some t)))))))"
  let ?save = "call fault SavePlayer
                 (exec (Player_save (oldPlayer\<lparr>p_username := sn, p_displayName := sn\<rparr>) (Some t)))"
  have m: "inTx fault ?merge"
    by (cases newPlayer)
      (simp_all add: inTx_skip inTx_merge [where newPlayer = "Some x" for x, simplified])
  have sv: "inTx fault ?save"
    by (intro inTx_exec) (simp_all add: Player_save_def)
  have pre: "inTx fault (await ?merge (\<lambda>_. ?save))"
    using m sv by (intro inTx_await)
  have eq: "tryTransfer ev fault now t td sn oldPlayer newPlayer =
            await (await ?merge (\<lambda>_. ?save)) (\<lambda>_. commit fault)"
    by (auto simp: tryTransfer_def Let_def await_def fun_eq_iff split: prod.splits sum.splits option.splits)
  obtain r1 s1 where r1: "await ?merge (\<lambda>_. ?save) s = (r1, s1)" by force
  with pre have c1: "committed s1 = committed s" and f1: "finished s1 = finished s"
    and e1: "\<And>e. r1 = Inl e \<Longrightarrow> \<exists>st. st \<noteq> Commit \<and> st \<noteq> Rollback \<and> fault st = Some e"
    by (auto simp: inTx_def)
  show ?thesis
  proof (cases r1)
    case (Inl e1)
    with assms(1) r1 eq have "e = e1" "s' = s1" by (auto simp: await_def)
    with c1 f1 e1 Inl assms(2) show ?thesis by simp
  next
    case (Inr u)
    with assms(1) r1 eq have "commit fault s1 = (Inl e, s')" by (auto simp: await_def)
    with f1 assms(2) have "fault Commit = Some e" "s' = s1\<lparr>finished := Some FinishedCommit\<rparr>"
      by (auto simp: commit_def split: option.splits)
    with c1 show ?thesis by simp
  qed
qed

lemma committed_rollback: "committed (snd (rollback fault s)) = committed s"
  by (simp add: rollback_def split: option.splits)

lemma transferDataTx_failure:
  assumes "transferDataTx ev fault now oldPlayer newPlayer newName d = (Inl e, so)"
  shows "so = None \<or> (\<exists>s. so = Some s \<and> committed s = d)"
proof (cases "fault BeginTransaction")
  case (Some x)
  with assms show ?thesis by (simp add: transferDataTx_def)
next
  case None
  show ?thesis
  proof (cases "fault FindLatest")
    case (Some x)
    with assms None show ?thesis
      by (auto simp: transferDataTx_def call_def beginTransaction_def)
  next
    case l: None
    define td where
      "td = (case findLatest d (p_id oldPlayer) of None \<Rightarrow> None | Some sn \<Rightarrow> s_createdAt sn)"
    obtain r2 s2 where
      t: "tryTransfer ev fault now Transaction td (standardize ev newName) oldPlayer newPlayer
            (beginTransaction d) = (r2, s2)"
      by force
    show ?thesis
    proof (cases r2)
      case (Inr u)
      with assms None l t show ?thesis
        by (simp add: transferDataTx_def call_def query_def Let_def td_def beginTransaction_def)
    next
      case (Inl e2)
      with t have "committed s2 = d"
        using tryTransfer_failure [of ev fault now Transaction td "standardize ev newName"
                oldPlayer newPlayer "beginTransaction d" e2 s2]
        by (simp add: beginTransaction_def)
      then have c: "committed (snd (rollback fault s2)) = d"
        by (simp add: committed_rollback)
      from assms None l t Inl
      have "so = Some (snd (rollback fault s2))"
        by (auto simp: transferDataTx_def call_def query_def Let_def td_def beginTransaction_def
              split: prod.splits sum.splits)
      with c show ?thesis by simp
    qed
  qed
qed

lemma transferData_failure:
  assumes "transferData ev fault now oldPlayer newPlayer newName d = (Inl e, d')"
  shows "d' = d"
proof -
  obtain r so where t: "transferDataTx ev fault now oldPlayer newPlayer newName d = (r, so)"
    by force
  with assms have r: "r = Inl e"
    by (auto simp: transferData_def split: option.splits)
  from transferDataTx_failure [OF t [unfolded r]] assms t show ?thesis
    by (auto simp: transferData_def)
qed

lemma commit_Inr:
  "commit fault s = (Inr u, s') \<Longrightarrow> fault Commit = None \<and> commit noFaults s = (Inr u, s')"
  by (auto simp: commit_def noFaults_def split: option.splits)

lemma call_Inr: "call fault st m s = (Inr x, s') \<Longrightarrow> fault st = None \<and> m s = (Inr x, s')"
  by (auto simp: call_def split: option.splits)

lemma await_Inr:
  "await m k s = (Inr y, s'') \<Longrightarrow> \<exists>x s'. m s = (Inr x, s') \<and> k x s' = (Inr y, s'')"
  by (auto simp: await_def split: prod.splits sum.splits)

lemma call_noFaults [simp]: "call noFaults st m = m"
  by (simp add: call_def noFaults_def fun_eq_iff)

lemma call_skip: "fault st = None \<Longrightarrow> call fault st m = m"
  by (simp add: call_def fun_eq_iff)

lemma transferRecords_Inr:
  "transferRecords ev fault now w target t s = (Inr u, s') \<Longrightarrow>
   fault FindOldRecords = None \<and> fault FindNewRecords = None \<and> fault UpdateRecords = None
   \<and> transferRecords ev noFaults now w target t s = (Inr u, s')"
  unfolding transferRecords_def Let_def
  by (auto simp: await_def query_def exec_def call_def noFaults_def split: option.splits)

lemma transferSnapshots_Inr:
  "transferSnapshots ev fault w target t s = (Inr u, s') \<Longrightarrow>
   fault FindSnapshots = None \<and> fault CreateSnapshots = None
   \<and> transferSnapshots ev noFaults w target t s = (Inr u, s')"
  unfolding transferSnapshots_def Let_def
  by (auto simp: await_def query_def exec_def call_def noFaults_def split: option.splits)

lemma transferMemberships_Inr:
  "transferMemberships ev fault w target t s = (Inr u, s') \<Longrightarrow>
   fault FindMemberships = None \<and> fault CreateMemberships = None
   \<and> transferMemberships ev noFaults w target t s = (Inr u, s')"
  unfolding transferMemberships_def Let_def
  by (auto simp: await_def query_def exec_def call_def noFaults_def split: option.splits)

lemma transferParticipations_Inr:
  "transferParticipations ev fault w target t s = (Inr u, s') \<Longrightarrow>
   fault FindParticipations = None \<and> fault CreateParticipations = None
   \<and> transferParticipations ev noFaults w target t s = (Inr u, s')"
  unfolding transferParticipations_def Let_def
  by (auto simp: await_def query_def exec_def call_def noFaults_def split: option.splits)

lemma tryTransfer_Inr:
  assumes "tryTransfer ev fault now t td sn oldPlayer newPlayer s = (Inr u, s')"
  shows "(\<forall>st. executed newPlayer st \<longrightarrow> st \<noteq> BeginTransaction \<longrightarrow> st \<noteq> FindLatest \<longrightarrow> fault st = None)
       \<and> tryTransfer ev noFaults now t td sn oldPlayer newPlayer s = (Inr u, s')"
proof (cases newPlayer)
  case None
  from assms have "fault SavePlayer = None \<and> fault Commit = None
      \<and> tryTransfer ev noFaults now t td sn oldPlayer newPlayer s = (Inr u, s')"
    unfolding tryTransfer_def Let_def None
    by (auto simp: await_def exec_def call_def commit_def noFaults_def split: option.splits)
  then show ?thesis using None by (auto simp: executed_def)
next
  case (Some np)
  from assms have "(\<forall>st. st \<noteq> BeginTransaction \<longrightarrow> st \<noteq> FindLatest \<longrightarrow> st \<noteq> Rollback \<longrightarrow>
                         fault st = None)
      \<and> tryTransfer ev noFaults now t td sn oldPlayer newPlayer s = (Inr u, s')"
    unfolding tryTransfer_def Let_def Some option.case
    apply -
    apply (drule await_Inr, elim exE conjE)+
    apply (drule transferRecords_Inr transferSnapshots_Inr transferMemberships_Inr
             transferParticipations_Inr call_Inr commit_Inr)+
    apply (rule conjI)
     apply (intro allI impI)
    subgoal for x s1 xa s2 xb s3 xc s4 xd s5 xe s6 st
      by (cases st) auto
    apply (auto simp: await_def exec_def)
    done
  then show ?thesis by (simp add: executed_def)
qed

lemma noFaults_None [simp]: "noFaults st = None"
  by (simp add: noFaults_def)

lemma await_query: "await (query f) k s = k (f (committed s)) s"
  by (simp add: await_def query_def)

lemma await_exec: "await (exec f) k s = k () (f s)"
  by (simp add: await_def exec_def)

lemma await_assoc: "await (await m k1) k2 = await m (\<lambda>x. await (k1 x) k2)"
  by (auto simp: await_def fun_eq_iff split: prod.splits sum.splits)

lemma fold_Record_update:
  "fold (Record_update now (Some t)) us s =
     s\<lparr>working := (working s)\<lparr>records := map (applyUpdates now us) (records (working s))\<rparr>\<rparr>"
proof (induction us arbitrary: s)
  case Nil
  then show ?case by (simp add: applyUpdates_def)
next
  case (Cons u us)
  have "fold (Record_update now (Some t)) (u # us) s =
        fold (Record_update now (Some t)) us (Record_update now (Some t) u s)"
    by simp
  also have "\<dots> = s\<lparr>working := (working s)\<lparr>records :=
       map (applyUpdates now (u # us)) (records (working s))\<rparr>\<rparr>"
    unfolding Cons
    by (simp add: Record_update_def writeDb_def applyUpdates_def o_def)
  finally show ?case .
qed

lemma transferData_noFaults_Some:
  "transferData ev noFaults now oldPlayer (Some np) newName d =
     (Inr (), merged ev now oldPlayer np newName d)"
  by (simp add: transferData_def tryTransfer_def transferRecords_def transferSnapshots_def
        transferMemberships_def transferParticipations_def Let_def
        await_assoc await_query await_exec fold_Record_update
        Snapshot_bulkCreate_def Membership_bulkCreate_def Participation_bulkCreate_def
        Player_destroy_def Player_save_def writeDb_def beginTransaction_def commit_def
        exec_def query_def merged_def transferDataTx_def
      split: option.splits)

lemma transferData_noFaults_None:
  "transferData ev noFaults now oldPlayer None newName d =
     (Inr (), d\<lparr>players :=
        map (\<lambda>q. if p_id q = p_id oldPlayer
                  then q\<lparr>p_username := standardize ev newName, p_displayName := standardize ev newName\<rparr>
                  else q) (players d)\<rparr>)"
  by (simp add: transferData_def transferDataTx_def tryTransfer_def Let_def
        await_assoc await_query await_exec
        Player_save_def writeDb_def beginTransaction_def commit_def
        exec_def query_def
      split: option.splits)

lemma transferData_Inr:
  assumes "transferData ev fault now oldPlayer newPlayer newName d = (Inr u, d')"
  shows "(\<forall>st. executed newPlayer st \<longrightarrow> fault st = None)
       \<and> transferData ev noFaults now oldPlayer newPlayer newName d = (Inr u, d')"
proof -
  from assms have b: "fault BeginTransaction = None"
    by (auto simp: transferData_def transferDataTx_def split: option.splits)
  from assms b have l: "fault FindLatest = None"
    by (auto simp: transferData_def transferDataTx_def call_def Let_def split: option.splits)
  define td where "td = (case findLatest d (p_id oldPlayer) of None \<Rightarrow> None | Some sn \<Rightarrow> s_createdAt sn)"
  from assms b l obtain s2 where
    t: "tryTransfer ev fault now Transaction td (standardize ev newName) oldPlayer newPlayer
          (beginTransaction d) = (Inr u, s2)" and d': "d' = committed s2"
    by (auto simp: transferData_def transferDataTx_def call_def query_def Let_def td_def
          beginTransaction_def
          split: option.splits prod.splits sum.splits)
  from tryTransfer_Inr [OF t] b l have "\<forall>st. executed newPlayer st \<longrightarrow> fault st = None"
    by (metis (full_types))
  moreover from tryTransfer_Inr [OF t] d'
  have "transferData ev noFaults now oldPlayer newPlayer newName d = (Inr u, d')"
    by (simp add: transferData_def transferDataTx_def call_def query_def Let_def td_def
          beginTransaction_def)
  ultimately show ?thesis by simp
qed

lemma approve_failure_unchanged:
  "approve ev fault now i pw d = (Inl e, d') \<Longrightarrow> d' = d"
  by (auto simp: approve_def Let_def split: option.splits if_splits prod.splits sum.splits
        dest: transferData_failure)

subsection \<open>Record updates\<close>

lemma find_SomeD: "List.find P xs = Some x \<Longrightarrow> x \<in> set xs \<and> P x"
  by (auto simp: find_Some_iff)

lemma sameRecord_key: "sameRecord a b = (recordKey a = recordKey b)"
  by (auto simp: sameRecord_def recordKey_def)

lemma recordKey_applyUpdates [simp]: "recordKey (applyUpdates now us r) = recordKey r"
  unfolding applyUpdates_def
  by (induction us arbitrary: r) (simp_all add: recordKey_def)

lemma applyUpdates_append:
  "applyUpdates now (us @ vs) r = applyUpdates now vs (applyUpdates now us r)"
  by (simp add: applyUpdates_def)

lemma applyUpdates_noop:
  "\<forall>u \<in> set us. recordKey (fst u) \<noteq> recordKey r \<Longrightarrow> applyUpdates now us r = r"
  unfolding applyUpdates_def
  by (induction us) (auto simp: sameRecord_key)

lemma outdatedOf_append:
  "outdatedOf olds (xs @ ys) = outdatedOf olds xs @ outdatedOf olds ys"
  by (simp add: outdatedOf_def)

lemma outdatedOf_mem:
  assumes "u \<in> set (outdatedOf olds ns)"
  shows "\<exists>n \<in> set ns. fst u \<in> set olds \<and> r_metric (fst u) = r_metric n
           \<and> r_period (fst u) = r_period n \<and> snd u = r_value n \<and> r_value (fst u) < r_value n"
  using assms
  by (auto simp: outdatedOf_def split: option.splits if_splits
        dest!: find_SomeD find_SomeD [OF sym])

lemma distinct_key_eq:
  "distinct (map recordKey rs) \<Longrightarrow> a \<in> set rs \<Longrightarrow> b \<in> set rs \<Longrightarrow>
   recordKey a = recordKey b \<Longrightarrow> a = b"
  by (meson distinct_map inj_onD)

lemma outdatedOf_single:
  assumes dist: "distinct (map recordKey rs)"
    and old: "old \<in> set rs" "r_playerId old = target"
    and mp: "r_metric n = r_metric old" "r_period n = r_period old"
  shows "outdatedOf (filter (\<lambda>r. r_playerId r = target) rs) [n] =
           (if r_value old < r_value n then [(old, r_value n)] else [])"
proof -
  let ?olds = "filter (\<lambda>r. r_playerId r = target) rs"
  let ?P = "\<lambda>r. r_metric r = r_metric n \<and> r_period r = r_period n"
  have "old \<in> set ?olds" "?P old" using old mp by simp_all
  then obtain q where q: "List.find ?P ?olds = Some q"
    by (cases "List.find ?P ?olds") (auto simp: find_None_iff)
  then have "q \<in> set rs" "r_playerId q = target" "?P q"
    by (auto dest!: find_SomeD)
  then have "recordKey q = recordKey old" using old mp by (simp add: recordKey_def)
  with dist \<open>q \<in> set rs\<close> old have "q = old" by (blast intro: distinct_key_eq)
  with q show ?thesis by (simp add: outdatedOf_def)
qed

lemma records_merge_row:
  assumes dist: "distinct (map recordKey rs)"
    and old: "old \<in> set rs" "r_playerId old = target"
    and new: "new \<in> set rs" "recordMatches ev uf new"
    and mp: "r_metric new = r_metric old" "r_period new = r_period old"
  shows "applyUpdates now
           (outdatedOf (filter (\<lambda>r. r_playerId r = target) rs) (filter (recordMatches ev uf) rs))
           old =
         (if r_value old < r_value new then old\<lparr>r_value := r_value new, r_updatedAt := now\<rparr>
          else old)"
proof -
  let ?olds = "filter (\<lambda>r. r_playerId r = target) rs"
  let ?news = "filter (recordMatches ev uf) rs"
  have dn: "distinct ?news" using dist by (simp add: distinct_map)
  have "new \<in> set ?news" using new by simp
  then obtain pre post where sp: "?news = pre @ new # post"
    by (meson split_list)
  with dn have notin: "new \<notin> set pre" "new \<notin> set post" by auto
  have other: "recordKey (fst u) \<noteq> recordKey old"
    if u: "u \<in> set (outdatedOf ?olds ns)" and ns: "set ns \<subseteq> set ?news" "new \<notin> set ns" for u ns
  proof
    assume k: "recordKey (fst u) = recordKey old"
    from outdatedOf_mem [OF u] obtain n where
      n: "n \<in> set ns" "r_metric (fst u) = r_metric n" "r_period (fst u) = r_period n"
      by blast
    from n ns have nin: "n \<in> set rs" "recordMatches ev uf n" by auto
    have "r_playerId n = r_playerId new"
      using nin new by (simp add: recordMatches_def whereMatches_def)
    with n k mp have "recordKey n = recordKey new"
      by (simp add: recordKey_def)
    with dist nin new have "n = new" by (blast intro: distinct_key_eq)
    with n ns show False by simp
  qed
  have pre: "applyUpdates now (outdatedOf ?olds pre) old = old"
    by (rule applyUpdates_noop) (use other [of _ pre] sp notin in auto)
  have post: "applyUpdates now (outdatedOf ?olds post) r = r" if "recordKey r = recordKey old" for r
    by (rule applyUpdates_noop) (use other [of _ post] sp notin that in auto)
  have mid: "outdatedOf ?olds [new] = (if r_value old < r_value new then [(old, r_value new)] else [])"
    using dist old mp by (rule outdatedOf_single)
  have "outdatedOf ?olds ?news = outdatedOf ?olds pre @ outdatedOf ?olds [new] @ outdatedOf ?olds post"
    unfolding sp by (simp add: outdatedOf_def)
  then have split: "applyUpdates now (outdatedOf ?olds ?news) old =
      applyUpdates now (outdatedOf ?olds post) (applyUpdates now (outdatedOf ?olds [new]) old)"
    by (simp add: applyUpdates_append pre)
  show ?thesis
  proof (cases "r_value old < r_value new")
    case True
    then have "applyUpdates now (outdatedOf ?olds [new]) old =
        old\<lparr>r_value := r_value new, r_updatedAt := now\<rparr>"
      by (simp add: mid applyUpdates_def sameRecord_def)
    with True show ?thesis
      by (simp add: split post recordKey_def)
  next
    case False
    then have "applyUpdates now (outdatedOf ?olds [new]) old = old"
      by (simp add: mid applyUpdates_def)
    with False show ?thesis
      by (simp add: split post)
  qed
qed

lemma applyUpdates_Cons:
  "applyUpdates now (u # us) q =
     applyUpdates now us
       (if sameRecord q (fst u) then q\<lparr>r_value := snd u, r_updatedAt := now\<rparr> else q)"
  by (simp add: applyUpdates_def)

lemma applyUpdates_lower_bound:
  "recordKey q = k \<Longrightarrow> v \<le> r_value q \<Longrightarrow>
   \<forall>u \<in> set us. recordKey (fst u) = k \<longrightarrow> v < snd u \<Longrightarrow>
   v \<le> r_value (applyUpdates now us q)"
proof (induction us arbitrary: q)
  case Nil
  then show ?case by (simp add: applyUpdates_def)
next
  case (Cons u us)
  let ?q = "if sameRecord q (fst u) then q\<lparr>r_value := snd u, r_updatedAt := now\<rparr> else q"
  have k: "recordKey ?q = k" using Cons.prems(1) by (simp add: recordKey_def)
  have v: "v \<le> r_value ?q"
  proof (cases "sameRecord q (fst u)")
    case True
    then have "recordKey (fst u) = k" using Cons.prems(1) by (simp add: sameRecord_key)
    with Cons.prems(3) have "v < snd u" by simp
    with True show ?thesis by simp
  next
    case False
    with Cons.prems(2) show ?thesis by simp
  qed
  have "v \<le> r_value (applyUpdates now us ?q)"
    using k v Cons.prems(3) by (intro Cons.IH) simp_all
  then show ?case by (simp only: applyUpdates_Cons)
qed

lemma records_merge_not_lower:
  assumes dist: "distinct (map recordKey rs)" and r: "r \<in> set rs"
  shows "r_value r \<le> r_value (applyUpdates now
           (outdatedOf (filter (\<lambda>r. r_playerId r = target) rs) ns) r)"
proof -
  let ?olds = "filter (\<lambda>r. r_playerId r = target) rs"
  have "\<forall>u \<in> set (outdatedOf ?olds ns). recordKey (fst u) = recordKey r \<longrightarrow> r_value r < snd u"
  proof (intro ballI impI)
    fix u assume u: "u \<in> set (outdatedOf ?olds ns)" and k: "recordKey (fst u) = recordKey r"
    from outdatedOf_mem [OF u] have "fst u \<in> set rs" "r_value (fst u) < snd u" by auto
    moreover from this k dist r have "fst u = r" by (blast intro: distinct_key_eq)
    ultimately show "r_value r < snd u" by simp
  qed
  then show ?thesis by (intro applyUpdates_lower_bound [where k = "recordKey r"]) simp_all
qed


lemma find_map_same:
  "(\<And>x. P (f x) = P x) \<Longrightarrow> List.find P (map f xs) = map_option f (List.find P xs)"
  by (induction xs) simp_all

lemma Record_findOne_updated:
  "records d' = map (applyUpdates now us) (records d) \<Longrightarrow>
   Record_findOne d' pid metric period =
     map_option (applyUpdates now us) (Record_findOne d pid metric period)"
  unfolding Record_findOne_def
  using recordKey_applyUpdates [of now us]
  by (simp add: find_map_same recordKey_def)

lemma Record_findOne_self:
  assumes "distinct (map recordKey (records d))" "r \<in> set (records d)"
  shows "Record_findOne d (r_playerId r) (r_metric r) (r_period r) = Some r"
proof -
  let ?P = "\<lambda>q. r_playerId q = r_playerId r \<and> r_metric q = r_metric r \<and> r_period q = r_period r"
  from assms(2) obtain q where q: "List.find ?P (records d) = Some q"
    by (cases "List.find ?P (records d)") (auto simp: find_None_iff)
  then have "q \<in> set (records d)" "recordKey q = recordKey r"
    by (auto dest!: find_SomeD simp: recordKey_def)
  with assms have "q = r" by (blast intro: distinct_key_eq)
  with q show ?thesis by (simp add: Record_findOne_def)
qed

lemma records_transferData_Some:
  assumes "transferData ev fault now oldPlayer (Some np) newName d = (Inr u, d')"
  shows "records d' =
     cascade (cascadeRecords ev) r_playerId (p_id np)
       (map (applyUpdates now
               (outdatedOf (filter (\<lambda>r. r_playerId r = p_id oldPlayer) (records d))
                  (filter (recordMatches ev
                      \<lparr>w_playerId = p_id np, w_createdAt = None,
                       w_updatedAt = Some (case findLatest d (p_id oldPlayer) of
                                             None \<Rightarrow> None | Some sn \<Rightarrow> s_createdAt sn)\<rparr>)
                     (records d))))
          (records d))"
proof -
  from transferData_Inr [OF assms]
  have "transferData ev noFaults now oldPlayer (Some np) newName d = (Inr u, d')" by simp
  then have "d' = merged ev now oldPlayer np newName d"
    by (simp add: transferData_noFaults_Some)
  then show ?thesis by (simp add: merged_def Let_def)
qed

lemma records_keys_transferRecords:
  "map recordKey (records (working (snd (transferRecords ev fault now w target t s)))) =
   map recordKey (records (working s))"
  by (simp add: transferRecords_def await_def call_def query_def exec_def Let_def
        fold_Record_update o_def split: option.splits)

lemma find_filter_same:
  "(\<And>x. P x \<Longrightarrow> Q x) \<Longrightarrow> List.find P (filter Q xs) = List.find P xs"
  by (induction xs) auto

lemma Record_findOne_cascade:
  "pid \<noteq> gone \<Longrightarrow> records d' = cascade on r_playerId gone (records d1) \<Longrightarrow>
   Record_findOne d' pid metric period = Record_findOne d1 pid metric period"
  by (auto simp: Record_findOne_def cascade_def intro!: find_filter_same)

lemma Record_findOne_merged:
  assumes "records d' = cascade on r_playerId gone (map (applyUpdates now us) (records d))"
    and "pid \<noteq> gone"
  shows "Record_findOne d' pid metric period =
           map_option (applyUpdates now us) (Record_findOne d pid metric period)"
proof -
  let ?d1 = "d\<lparr>records := map (applyUpdates now us) (records d)\<rparr>"
  have "Record_findOne d' pid metric period = Record_findOne ?d1 pid metric period"
    using assms by (intro Record_findOne_cascade [where on = on and gone = gone]) simp_all
  also have "\<dots> = map_option (applyUpdates now us) (Record_findOne d pid metric period)"
    by (rule Record_findOne_updated) simp
  finally show ?thesis .
qed

lemma filter_owner_cascade:
  "pid \<noteq> gone \<Longrightarrow>
   filter (\<lambda>r. r_playerId r = pid) (cascade on r_playerId gone rows) =
   filter (\<lambda>r. r_playerId r = pid) rows"
  by (induction rows) (auto simp: cascade_def)

lemma filter_owner_applyUpdates:
  "map recordKey (filter (\<lambda>r. r_playerId r = pid) (map (applyUpdates now us) rows)) =
   map recordKey (filter (\<lambda>r. r_playerId r = pid) rows)"
proof (induction rows)
  case Nil
  then show ?case by simp
next
  case (Cons r rows)
  have "r_playerId (applyUpdates now us r) = r_playerId r"
    using recordKey_applyUpdates [of now us r] by (simp add: recordKey_def)
  with Cons show ?case by simp
qed

lemma donor_records_transferData:
  assumes "\<forall>np. newPlayer = Some np \<longrightarrow> p_id np \<noteq> p_id oldPlayer"
  shows "map recordKey
           (filter (\<lambda>r. r_playerId r = p_id oldPlayer)
              (records (snd (transferData ev fault now oldPlayer newPlayer newName d)))) =
         map recordKey (filter (\<lambda>r. r_playerId r = p_id oldPlayer) (records d))"
proof -
  obtain r d' where r: "transferData ev fault now oldPlayer newPlayer newName d = (r, d')"
    by force
  show ?thesis
  proof (cases r)
    case (Inl e)
    with r transferData_failure [of ev fault now oldPlayer newPlayer newName d e d']
    show ?thesis by simp
  next
    case (Inr u)
    with r have n: "transferData ev noFaults now oldPlayer newPlayer newName d = (Inr u, d')"
      using transferData_Inr by blast
    show ?thesis
    proof (cases newPlayer)
      case None
      with n have "d' = d\<lparr>players :=
        map (\<lambda>q. if p_id q = p_id oldPlayer
                  then q\<lparr>p_username := standardize ev newName,
                         p_displayName := standardize ev newName\<rparr>
                  else q) (players d)\<rparr>"
        by (simp add: transferData_noFaults_None)
      with r show ?thesis by simp
    next
      case (Some np)
      with assms have ne: "p_id oldPlayer \<noteq> p_id np" by auto
      from Some r Inr have "records d' =
        cascade (cascadeRecords ev) r_playerId (p_id np)
          (map (applyUpdates now
            (outdatedOf (filter (\<lambda>r. r_playerId r = p_id oldPlayer) (records d))
               (filter (recordMatches ev
                   \<lparr>w_playerId = p_id np, w_createdAt = None,
                    w_updatedAt = Some (case findLatest d (p_id oldPlayer) of
                                          None \<Rightarrow> None | Some sn \<Rightarrow> s_createdAt sn)\<rparr>)
                  (records d))))
         (records d))"
        using records_transferData_Some by blast
      with r show ?thesis
        by (simp add: filter_owner_cascade [OF ne] filter_owner_applyUpdates)
    qed
  qed
qed

lemma submit_cases:
  "submit now oldName newName d =
     (case find_player d oldName of
        None \<Rightarrow>
          (Inl (Err BadRequestError
                 (''Player '' @ [CHR 0x27] @ oldName @ [CHR 0x27] @ '' is not tracked yet.'')), d)
      | Some p \<Rightarrow>
        (case NameChange_findPending d oldName newName of
           Some q \<Rightarrow>
             (Inl (Err BadRequestError
                (''There'' @ [CHR 0x27] @ ''s already a similar pending name change request.'')), d)
         | None \<Rightarrow>
             (Inr (NameChange_create now (p_id p) oldName newName d),
              d\<lparr>nameChanges :=
                  nameChanges d @ [NameChange_create now (p_id p) oldName newName d]\<rparr>)))"
  by (simp add: submit_def Let_def split: option.splits)

subsection \<open>Requests along a run\<close>

lemma oneTransition_refl: "oneTransition n n"
  by (simp add: oneTransition_def)

lemma oneTransition_trans:
  "oneTransition a b \<Longrightarrow> oneTransition b c \<Longrightarrow> oneTransition a c"
  by (auto simp: oneTransition_def)

lemma nameChanges_transferData:
  "nameChanges (snd (transferData ev fault now oldPlayer newPlayer newName d)) = nameChanges d"
proof -
  obtain r d' where r: "transferData ev fault now oldPlayer newPlayer newName d = (r, d')"
    by force
  show ?thesis
  proof (cases r)
    case (Inl e)
    with r transferData_failure [of ev fault now oldPlayer newPlayer newName d e d']
    show ?thesis by simp
  next
    case (Inr u)
    with r have n: "transferData ev noFaults now oldPlayer newPlayer newName d = (Inr u, d')"
      using transferData_Inr by blast
    then have "nameChanges d' = nameChanges d"
      by (cases newPlayer)
        (auto simp: transferData_noFaults_None transferData_noFaults_Some merged_def Let_def)
    with r show ?thesis by simp
  qed
qed

lemma findOne_update:
  "NameChange_findOne (NameChange_update i f d) j =
     map_option (\<lambda>n. if nc_id n = i then f n else n) (NameChange_findOne d j)"
  if "\<And>n. nc_id (f n) = nc_id n"
  unfolding NameChange_findOne_def NameChange_update_def
  using that by (simp add: find_map_same)

lemma findOne_updates_table:
  assumes "nameChanges d1 = nameChanges d" "\<And>n. nc_id (f n) = nc_id n"
  shows "NameChange_findOne (NameChange_update i f d1) j =
     map_option (\<lambda>n. if nc_id n = i then f n else n) (NameChange_findOne d j)"
proof -
  have "NameChange_findOne d1 j = NameChange_findOne d j"
    using assms(1) by (simp add: NameChange_findOne_def)
  with findOne_update [of f i d1 j] assms(2) show ?thesis by simp
qed

lemma find_append_Some:
  "List.find P xs = Some y \<Longrightarrow> List.find P (xs @ ys) = Some y"
  by (induction xs) (simp_all split: if_splits)

lemma findOne_append:
  "NameChange_findOne d j = Some n \<Longrightarrow>
   NameChange_findOne (d\<lparr>nameChanges := nameChanges d @ [x]\<rparr>) j = Some n"
  by (simp add: NameChange_findOne_def find_append_Some)

lemma approve_Inr:
  assumes "approve ev fault now i pw d = (Inr r, d')"
  shows "\<exists>nc op u d1.
           NameChange_findOne d i = Some nc \<and> nc_status nc = PENDING
           \<and> pw = ADMIN_PASSWORD ev \<and> find_player d (nc_oldName nc) = Some op
           \<and> transferData ev fault now op (find_player d (nc_newName nc)) (nc_newName nc) d
               = (Inr u, d1)
           \<and> r = nc\<lparr>nc_status := APPROVED, nc_resolvedAt := Some now\<rparr>
           \<and> d' = NameChange_update (nc_id nc)
                      (\<lambda>n. n\<lparr>nc_status := APPROVED, nc_resolvedAt := Some now\<rparr>) d1"
proof (cases "NameChange_findOne d i")
  case None
  with assms show ?thesis by (simp add: approve_def)
next
  case (Some nc)
  note nc = this
  show ?thesis
  proof (cases "nc_status nc = PENDING \<and> pw = ADMIN_PASSWORD ev")
    case False
    then consider "nc_status nc \<noteq> PENDING" | "nc_status nc = PENDING" "pw \<noteq> ADMIN_PASSWORD ev"
      by blast
    then show ?thesis
    proof cases
      case 1
      with assms nc show ?thesis by (simp add: approve_def)
    next
      case 2
      with assms nc show ?thesis by (simp add: approve_def)
    qed
  next
    case True
    show ?thesis
    proof (cases "find_player d (nc_oldName nc)")
      case None
      with assms nc True show ?thesis by (simp add: approve_def Let_def)
    next
      case (Some op)
      obtain res d1 where
        t: "transferData ev fault now op (find_player d (nc_newName nc)) (nc_newName nc) d
              = (res, d1)"
        by force
      show ?thesis
      proof (cases res)
        case (Inl e)
        with assms nc True Some t show ?thesis by (simp add: approve_def Let_def)
      next
        case (Inr u)
        with assms nc True Some t show ?thesis by (simp add: approve_def Let_def)
      qed
    qed
  qed
qed

lemma perform_oneTransition:
  assumes "NameChange_findOne d j = Some n"
  shows "\<exists>n'. NameChange_findOne (perform ev operation d) j = Some n' \<and> oneTransition n n'"
proof (cases operation)
  case (Submit now oldName newName)
  have "perform ev operation d = d
      \<or> (\<exists>x. perform ev operation d = d\<lparr>nameChanges := nameChanges d @ [x]\<rparr>)"
    unfolding Submit by (auto simp: submit_cases split: option.splits)
  with assms show ?thesis
    by (auto simp: findOne_append oneTransition_refl)
next
  case (Deny i pw)
  show ?thesis
  proof (cases "fst (deny ev i pw d)")
    case (Inl e)
    then have "perform ev operation d = d"
      unfolding Deny using deny_failure_unchanged [of ev i pw d e "snd (deny ev i pw d)"]
      by (simp add: prod_eq_iff)
    with assms show ?thesis by (simp add: oneTransition_refl)
  next
    case (Inr r)
    then obtain nc where nc: "NameChange_findOne d i = Some nc" "nc_status nc = PENDING"
      and d': "perform ev operation d = NameChange_update (nc_id nc) (\<lambda>n. n\<lparr>nc_status := DENIED\<rparr>) d"
      unfolding Deny by (auto simp: deny_def split: option.splits if_splits)
    from nc(1) have idn: "nc_id nc = i" by (simp add: findOne_Some)
    from assms have idj: "nc_id n = j" by (simp add: findOne_Some)
    have "NameChange_findOne (perform ev operation d) j =
            Some (if nc_id n = i then n\<lparr>nc_status := DENIED\<rparr> else n)"
      unfolding d' idn using assms by (simp add: findOne_update)
    moreover have "oneTransition n (if nc_id n = i then n\<lparr>nc_status := DENIED\<rparr> else n)"
      using nc assms idj by (auto simp: oneTransition_def)
    ultimately show ?thesis by blast
  qed
next
  case (Approve fault now i pw)
  show ?thesis
  proof (cases "fst (approve ev fault now i pw d)")
    case (Inl e)
    then have "perform ev operation d = d"
      unfolding Approve
      using approve_failure_unchanged [of ev fault now i pw d e "snd (approve ev fault now i pw d)"]
      by (simp add: prod_eq_iff)
    with assms show ?thesis by (simp add: oneTransition_refl)
  next
    case (Inr r)
    let ?f = "\<lambda>n. n\<lparr>nc_status := APPROVED, nc_resolvedAt := Some now\<rparr>"
    from Inr have "approve ev fault now i pw d = (Inr r, snd (approve ev fault now i pw d))"
      by (simp add: prod_eq_iff)
    from approve_Inr [OF this] obtain nc op u d1 where
      nc: "NameChange_findOne d i = Some nc" "nc_status nc = PENDING"
      and t: "transferData ev fault now op (find_player d (nc_newName nc)) (nc_newName nc) d
               = (Inr u, d1)"
      and d': "perform ev operation d = NameChange_update (nc_id nc) ?f d1"
      unfolding Approve by auto
    have d1: "nameChanges d1 = nameChanges d"
      using nameChanges_transferData
        [of ev fault now op "find_player d (nc_newName nc)" "nc_newName nc" d] t
      by simp
    from nc(1) have idn: "nc_id nc = i" by (simp add: findOne_Some)
    from assms have idj: "nc_id n = j" by (simp add: findOne_Some)
    have "NameChange_findOne (perform ev operation d) j = Some (if nc_id n = i then ?f n else n)"
      unfolding d' idn using assms findOne_updates_table [OF d1, of ?f i j] by simp
    moreover have "oneTransition n (if nc_id n = i then ?f n else n)"
      using nc assms idj by (auto simp: oneTransition_def)
    ultimately show ?thesis by blast
  qed
qed

lemma run_oneTransition:
  "NameChange_findOne d j = Some n \<Longrightarrow>
   \<exists>n'. NameChange_findOne (run ev ops d) j = Some n' \<and> oneTransition n n'"
proof (induction ops arbitrary: d n)
  case Nil
  then show ?case by (simp add: run_def oneTransition_refl)
next
  case (Cons operation ops)
  from perform_oneTransition [OF Cons.prems, of ev operation] obtain n1 where
    n1: "NameChange_findOne (perform ev operation d) j = Some n1" "oneTransition n n1" by blast
  from Cons.IH [OF n1(1)] obtain n2 where
    "NameChange_findOne (run ev ops (perform ev operation d)) j = Some n2" "oneTransition n1 n2"
    by blast
  with n1 show ?case
    by (auto simp: run_def intro: oneTransition_trans)
qed

lemma run_append: "run ev (ops1 @ ops2) d = run ev ops2 (run ev ops1 d)"
  by (simp add: run_def)

lemma renamed_players:
  assumes "p \<in> set xs"
  shows "(\<exists>q \<in> set (map (\<lambda>q. if p_id q = p_id p
                                 then q\<lparr>p_username := s, p_displayName := s\<rparr> else q) xs).
            p_id q = p_id p)
       \<and> (\<forall>q \<in> set (map (\<lambda>q. if p_id q = p_id p
                                 then q\<lparr>p_username := s, p_displayName := s\<rparr> else q) xs).
            p_id q = p_id p \<longrightarrow> p_username q = s \<and> p_displayName q = s)"
proof
  let ?rn = "\<lambda>q. if p_id q = p_id p then q\<lparr>p_username := s, p_displayName := s\<rparr> else q"
  from assms have "?rn p \<in> set (map ?rn xs)" by (rule imageI [of p "set xs" ?rn, folded set_map])
  moreover have "p_id (?rn p) = p_id p" by simp
  ultimately show "\<exists>q \<in> set (map ?rn xs). p_id q = p_id p" by blast
  show "\<forall>q \<in> set (map ?rn xs). p_id q = p_id p \<longrightarrow> p_username q = s \<and> p_displayName q = s"
    by (auto split: if_splits)
qed

lemma approve_renames_donor:
  assumes ok: "approve ev fault now i pw d = (Inr r, d')"
    and nc: "NameChange_findOne d i = Some nc"
    and op: "find_player d (nc_oldName nc) = Some op"
    and other: "\<forall>np. find_player d (nc_newName nc) = Some np \<longrightarrow> p_id np \<noteq> p_id op"
  shows "(\<exists>q \<in> set (players d'). p_id q = p_id op)
       \<and> (\<forall>q \<in> set (players d'). p_id q = p_id op \<longrightarrow>
            p_username q = standardize ev (nc_newName nc)
            \<and> p_displayName q = standardize ev (nc_newName nc))
       \<and> (\<forall>np. find_player d (nc_newName nc) = Some np \<longrightarrow>
            (\<forall>q \<in> set (players d'). p_id q \<noteq> p_id np))"
proof -
  from approve_Inr [OF ok] nc op obtain u d1 where
    t: "transferData ev fault now op (find_player d (nc_newName nc)) (nc_newName nc) d
          = (Inr u, d1)"
    and d': "d' = NameChange_update (nc_id nc)
                   (\<lambda>n. n\<lparr>nc_status := APPROVED, nc_resolvedAt := Some now\<rparr>) d1"
    by auto
  from transferData_Inr [OF t] have
    n: "transferData ev noFaults now op (find_player d (nc_newName nc)) (nc_newName nc) d
          = (Inr u, d1)"
    by simp
  have pl: "players d' = players d1" by (simp add: d' NameChange_update_def)
  from op have opin: "op \<in> set (players d)"
    by (auto simp: find_player_def dest!: find_SomeD)
  let ?rn = "\<lambda>q. if p_id q = p_id op
                  then q\<lparr>p_username := standardize ev (nc_newName nc),
                         p_displayName := standardize ev (nc_newName nc)\<rparr>
                  else q"
  show ?thesis
  proof (cases "find_player d (nc_newName nc)")
    case None
    with n have "d1 = d\<lparr>players := map ?rn (players d)\<rparr>"
      by (simp add: transferData_noFaults_None)
    then have "players d1 = map ?rn (players d)" by simp
    with pl have p: "players d' = map ?rn (players d)" by simp
    note rp = renamed_players [OF opin, of "standardize ev (nc_newName nc)", folded p]
    have "\<forall>np. find_player d (nc_newName nc) = Some np \<longrightarrow>
            (\<forall>q \<in> set (players d'). p_id q \<noteq> p_id np)"
      by (simp add: None)
    with rp [THEN conjunct1] rp [THEN conjunct2] show ?thesis by (intro conjI)
  next
    case (Some np)
    with other have ne: "p_id np \<noteq> p_id op" by simp
    from n Some have "d1 = merged ev now op np (nc_newName nc) d"
      by (simp add: transferData_noFaults_Some)
    then have "players d1 = map ?rn (filter (\<lambda>q. p_id q \<noteq> p_id np) (players d))"
      by (simp add: merged_def Let_def)
    with pl have p: "players d' = map ?rn (filter (\<lambda>q. p_id q \<noteq> p_id np) (players d))"
      by simp
    have "op \<in> set (filter (\<lambda>q. p_id q \<noteq> p_id np) (players d))"
      using opin ne by simp
    note rp = renamed_players [OF this, of "standardize ev (nc_newName nc)", folded p]
    have "\<forall>q \<in> set (map ?rn (filter (\<lambda>q. p_id q \<noteq> p_id np) (players d))).
        p_id q \<noteq> p_id np"
      by (auto split: if_splits)
    then have "\<forall>q \<in> set (players d'). p_id q \<noteq> p_id np"
      by (simp only: p)
    then have "\<forall>np. find_player d (nc_newName nc) = Some np \<longrightarrow>
            (\<forall>q \<in> set (players d'). p_id q \<noteq> p_id np)"
      by (simp add: Some)
    with rp [THEN conjunct1] rp [THEN conjunct2] show ?thesis by (intro conjI)
  qed
qed

subsection \<open>Inserting and ignoring duplicates\<close>

lemma insertIgnore_Nil [simp]: "insertIgnore key assign [] tbl = tbl"
  by (simp add: insertIgnore_def)

lemma insertIgnore_Cons:
  "insertIgnore key assign (x # xs) tbl =
     insertIgnore key assign xs
       (if key x \<in> set (map key tbl) then tbl else tbl @ [assign tbl x])"
  by (simp add: insertIgnore_def)

lemma insertIgnore_added:
  assumes A: "\<And>t r. key (assign t r) = key r"
  shows "\<exists>added. insertIgnore key assign rows tbl = tbl @ added
           \<and> (\<forall>r \<in> set added. (\<exists>t q. q \<in> set rows \<and> r = assign t q)
                                 \<and> key r \<notin> set (map key tbl))
           \<and> distinct (map key added)"
proof (induction rows arbitrary: tbl)
  case Nil
  then show ?case by simp
next
  case (Cons x xs)
  show ?case
  proof (cases "key x \<in> set (map key tbl)")
    case True
    from Cons.IH [of tbl] obtain added where
      "insertIgnore key assign xs tbl = tbl @ added"
      "\<forall>r \<in> set added. (\<exists>t q. q \<in> set xs \<and> r = assign t q) \<and> key r \<notin> set (map key tbl)"
      "distinct (map key added)"
      by blast
    with True show ?thesis
      by (simp only: insertIgnore_Cons if_True) (rule exI [of _ added], simp, blast)
  next
    case False
    let ?a = "assign tbl x"
    from Cons.IH [of "tbl @ [?a]"] obtain added where
      e: "insertIgnore key assign xs (tbl @ [?a]) = (tbl @ [?a]) @ added"
      and m: "\<forall>r \<in> set added. (\<exists>t q. q \<in> set xs \<and> r = assign t q)
                \<and> key r \<notin> set (map key (tbl @ [?a]))"
      and d: "distinct (map key added)"
      by blast
    have ka: "key ?a = key x" by (rule A)
    have "insertIgnore key assign (x # xs) tbl = tbl @ (?a # added)"
      using False e by (simp only: insertIgnore_Cons if_False) simp
    moreover have "\<forall>r \<in> set (?a # added). (\<exists>t q. q \<in> set (x # xs) \<and> r = assign t q)
                \<and> key r \<notin> set (map key tbl)"
    proof
      fix r assume "r \<in> set (?a # added)"
      then consider "r = ?a" | "r \<in> set added" by auto
      then show "(\<exists>t q. q \<in> set (x # xs) \<and> r = assign t q) \<and> key r \<notin> set (map key tbl)"
      proof cases
        case 1
        with False ka show ?thesis by auto
      next
        case 2
        with m have "(\<exists>t q. q \<in> set xs \<and> r = assign t q)" "key r \<notin> set (map key (tbl @ [?a]))"
          by blast+
        then show ?thesis by auto
      qed
    qed
    moreover have "distinct (map key (?a # added))"
      using d m by auto
    ultimately show ?thesis by blast
  qed
qed

lemma insertIgnore_keys:
  assumes A: "\<And>t r. key (assign t r) = key r"
  shows "set (map key (insertIgnore key assign rows tbl)) = set (map key tbl) \<union> set (map key rows)"
proof (induction rows arbitrary: tbl)
  case Nil
  then show ?case by simp
next
  case (Cons x xs)
  show ?case
    by (simp only: insertIgnore_Cons Cons.IH) (auto simp: A)
qed

lemma insertIgnore_noop:
  "set (map key rows) \<subseteq> set (map key tbl) \<Longrightarrow> insertIgnore key assign rows tbl = tbl"
  by (induction rows) (simp_all add: insertIgnore_Cons)

lemma insertIgnore_twice:
  assumes A: "\<And>t r. key (assign t r) = key r"
    and B: "\<And>t q. key (mv (assign t (mv q))) = key (mv q)"
  shows "insertIgnore key assign
           (map mv (filter P (insertIgnore key assign (map mv (filter P tbl)) tbl)))
           (insertIgnore key assign (map mv (filter P tbl)) tbl) =
         insertIgnore key assign (map mv (filter P tbl)) tbl"
proof (rule insertIgnore_noop)
  let ?rows = "map mv (filter P tbl)"
  let ?ins = "insertIgnore key assign ?rows tbl"
  from insertIgnore_added [of key assign ?rows tbl, OF A] obtain added where
    e: "?ins = tbl @ added"
    and m: "\<forall>r \<in> set added. (\<exists>t q. q \<in> set ?rows \<and> r = assign t q)
              \<and> key r \<notin> set (map key tbl)"
    by blast
  have keys: "set (map key ?ins) = set (map key tbl) \<union> set (map key ?rows)"
    by (rule insertIgnore_keys [of key assign, OF A])
  show "set (map key (map mv (filter P ?ins))) \<subseteq> set (map key ?ins)"
  proof
    fix k assume "k \<in> set (map key (map mv (filter P ?ins)))"
    then obtain r where r: "r \<in> set ?ins" "P r" "k = key (mv r)" by auto
    from r(1) e consider "r \<in> set tbl" | "r \<in> set added" by auto
    then show "k \<in> set (map key ?ins)"
    proof cases
      case 1
      with r have "k \<in> set (map key ?rows)" by auto
      with keys show ?thesis by blast
    next
      case 2
      with m obtain t q0 where "q0 \<in> set tbl" "P q0" "r = assign t (mv q0)" by auto
      with r have "k = key (mv q0)" "key (mv q0) \<in> set (map key ?rows)"
        by (auto simp: B)
      with keys show ?thesis by blast
    qed
  qed
qed


lemma insertIgnore_appendsCopies:
  assumes A: "\<And>t r. key (assign t r) = key r"
    and C: "\<And>t q. strip (assign t (mv q)) = mv q"
  shows "appendsCopies key P mv strip tbl (insertIgnore key assign (map mv (filter P tbl)) tbl)"
proof -
  let ?rows = "map mv (filter P tbl)"
  let ?ins = "insertIgnore key assign ?rows tbl"
  from insertIgnore_added [of key assign ?rows tbl, OF A] obtain added where
    e: "?ins = tbl @ added"
    and m: "\<forall>r \<in> set added. (\<exists>t q. q \<in> set ?rows \<and> r = assign t q)
              \<and> key r \<notin> set (map key tbl)"
    and d: "distinct (map key added)"
    by blast
  have keys: "set (map key ?ins) = set (map key tbl) \<union> set (map key ?rows)"
    by (rule insertIgnore_keys [of key assign, OF A])
  have 1: "take (length tbl) ?ins = tbl" and dr: "drop (length tbl) ?ins = added"
    by (simp_all add: e)
  have 2: "\<forall>r \<in> set added. (\<exists>q \<in> set tbl. P q \<and> strip r = mv q) \<and> key r \<notin> set (map key tbl)"
  proof
    fix r assume "r \<in> set added"
    with m obtain t q0 where "q0 \<in> set tbl" "P q0" "r = assign t (mv q0)"
      and k: "key r \<notin> set (map key tbl)" by auto
    then have "\<exists>q \<in> set tbl. P q \<and> strip r = mv q" by (auto simp: C)
    with k show "(\<exists>q \<in> set tbl. P q \<and> strip r = mv q) \<and> key r \<notin> set (map key tbl)"
      by simp
  qed
  have 4: "\<forall>q \<in> set tbl. P q \<longrightarrow> key (mv q) \<in> set (map key ?ins)"
    unfolding keys by auto
  show ?thesis
    unfolding appendsCopies_def dr using 1 2 d 4 by (intro conjI)
qed

lemma moveSnapshots_eq:
  "moveSnapshots ev w target d =
     d\<lparr>snapshots :=
         insertIgnore snapshotKey (\<lambda>tbl r. r\<lparr>s_id := Some (nextId (snapshotIds tbl))\<rparr>)
           (map (\<lambda>s. s\<lparr>s_playerId := target, s_id := None\<rparr>)
              (filter (snapshotMatches ev w) (snapshots d)))
           (snapshots d)\<rparr>"
  by (simp add: moveSnapshots_def runInTransaction_def transferSnapshots_def Let_def
        await_query exec_def Snapshot_bulkCreate_def writeDb_def beginTransaction_def commit_def)

lemma moveParticipations_eq:
  "moveParticipations ev w target d =
     d\<lparr>participations :=
         insertIgnore participationKey (\<lambda>tbl r. r)
           (map (\<lambda>ns. ns\<lparr>pt_playerId := target\<rparr>)
              (filter (participationMatches ev w) (participations d)))
           (participations d)\<rparr>"
  by (simp add: moveParticipations_def runInTransaction_def transferParticipations_def Let_def
        await_query exec_def Participation_bulkCreate_def writeDb_def beginTransaction_def
        commit_def)

lemma moveMemberships_eq:
  "moveMemberships ev w target d =
     d\<lparr>memberships :=
         insertIgnore membershipKey (\<lambda>tbl r. r)
           (map (\<lambda>ns. ns\<lparr>m_playerId := target\<rparr>)
              (filter (membershipMatches ev w) (memberships d)))
           (memberships d)\<rparr>"
  by (simp add: moveMemberships_def runInTransaction_def transferMemberships_def Let_def
        await_query exec_def Membership_bulkCreate_def writeDb_def beginTransaction_def
        commit_def)

lemma snapshotMatches_createdSince:
  "snapshotMatches ev (createdSince rid t) =
     (\<lambda>q. s_playerId q = rid \<and> (case s_createdAt q of None \<Rightarrow> False | Some c \<Rightarrow> t \<le> c))"
  by (auto simp: snapshotMatches_def createdSince_def whereMatches_def sqlGte_def fun_eq_iff
        split: option.splits)

lemma participationMatches_createdSince:
  "participationMatches ev (createdSince rid t) = (\<lambda>q. pt_playerId q = rid \<and> t \<le> pt_createdAt q)"
  by (auto simp: participationMatches_def createdSince_def whereMatches_def sqlGte_def fun_eq_iff)

lemma membershipMatches_createdSince:
  "membershipMatches ev (createdSince rid t) = (\<lambda>q. m_playerId q = rid \<and> t \<le> m_createdAt q)"
  by (auto simp: membershipMatches_def createdSince_def whereMatches_def sqlGte_def fun_eq_iff)

lemma moveSnapshots_twice:
  "moveSnapshots ev w target (moveSnapshots ev w target d) = moveSnapshots ev w target d"
proof -
  have "insertIgnore snapshotKey (\<lambda>tbl r. r\<lparr>s_id := Some (nextId (snapshotIds tbl))\<rparr>)
           (map (\<lambda>s. s\<lparr>s_playerId := target, s_id := None\<rparr>)
              (filter (snapshotMatches ev w) (snapshots (moveSnapshots ev w target d))))
           (snapshots (moveSnapshots ev w target d)) = snapshots (moveSnapshots ev w target d)"
    unfolding moveSnapshots_eq [of ev w target d]
    by (simp, rule insertIgnore_twice) (simp_all add: snapshotKey_def)
  then show ?thesis
    by (subst moveSnapshots_eq) (simp add: moveSnapshots_eq [of ev w target d])
qed

lemma moveParticipations_twice:
  "moveParticipations ev w target (moveParticipations ev w target d) =
   moveParticipations ev w target d"
proof -
  have "insertIgnore participationKey (\<lambda>tbl r. r)
           (map (\<lambda>ns. ns\<lparr>pt_playerId := target\<rparr>)
              (filter (participationMatches ev w)
                 (participations (moveParticipations ev w target d))))
           (participations (moveParticipations ev w target d)) =
        participations (moveParticipations ev w target d)"
    unfolding moveParticipations_eq [of ev w target d]
    by (simp, rule insertIgnore_twice) (simp_all add: participationKey_def)
  then show ?thesis
    by (subst moveParticipations_eq) (simp add: moveParticipations_eq [of ev w target d])
qed

lemma moveMemberships_twice:
  "moveMemberships ev w target (moveMemberships ev w target d) = moveMemberships ev w target d"
proof -
  have "insertIgnore membershipKey (\<lambda>tbl r. r)
           (map (\<lambda>ns. ns\<lparr>m_playerId := target\<rparr>)
              (filter (membershipMatches ev w) (memberships (moveMemberships ev w target d))))
           (memberships (moveMemberships ev w target d)) =
        memberships (moveMemberships ev w target d)"
    unfolding moveMemberships_eq [of ev w target d]
    by (simp, rule insertIgnore_twice) (simp_all add: membershipKey_def)
  then show ?thesis
    by (subst moveMemberships_eq) (simp add: moveMemberships_eq [of ev w target d])
qed

section \<open>Submitting a request\<close>

text \<open>
  Claim C5, as the code has it. \<^verbatim>\<open>submit\<close> throws a \<^verbatim>\<open>BadRequestError\<close> saying that the
  player is not tracked yet when no player has the old name as its username. When there
  is such a player and a PENDING request with the same old and new name exists, it
  throws a \<^verbatim>\<open>BadRequestError\<close> saying that a similar request is pending. In both cases
  the database is unchanged. Otherwise it appends exactly one request to the table of
  requests, PENDING, unresolved, under an id no other request has, and changes no other
  table.
\<close>

theorem submit_outcomes:
  "((\<forall>p \<in> set (players d). p_username p \<noteq> oldName) \<longrightarrow>
      submit now oldName newName d =
        (Inl (Err BadRequestError
               (''Player '' @ [CHR 0x27] @ oldName @ [CHR 0x27] @ '' is not tracked yet.'')), d))
   \<and> ((\<exists>p \<in> set (players d). p_username p = oldName) \<and>
       (\<exists>n \<in> set (nameChanges d).
          nc_oldName n = oldName \<and> nc_newName n = newName \<and> nc_status n = PENDING) \<longrightarrow>
      submit now oldName newName d =
        (Inl (Err BadRequestError
               (''There'' @ [CHR 0x27] @ ''s already a similar pending name change request.'')), d))
   \<and> ((\<exists>p \<in> set (players d). p_username p = oldName) \<and>
       (\<forall>n \<in> set (nameChanges d).
          \<not> (nc_oldName n = oldName \<and> nc_newName n = newName \<and> nc_status n = PENDING)) \<longrightarrow>
      (\<exists>nc. submit now oldName newName d = (Inr nc, d\<lparr>nameChanges := nameChanges d @ [nc]\<rparr>)
          \<and> nc_status nc = PENDING \<and> nc_resolvedAt nc = None
          \<and> nc_oldName nc = oldName \<and> nc_newName nc = newName
          \<and> nc_id nc \<notin> set (map nc_id (nameChanges d))))"
proof -
  have fresh: "\<And>p. nc_id (NameChange_create now (p_id p) oldName newName d)
                    \<notin> set (map nc_id (nameChanges d))"
    by (simp add: NameChange_create_def nextId_fresh del: set_map)
  show ?thesis
  proof (cases "find_player d oldName")
    case None
    then show ?thesis
      by (simp add: submit_cases) (simp add: find_player_None)
  next
    case (Some p)
    then have tracked: "\<not> (\<forall>p \<in> set (players d). p_username p \<noteq> oldName)"
      using find_player_None [of d oldName] by auto
    show ?thesis
    proof (cases "NameChange_findPending d oldName newName")
      case None
      with Some tracked fresh [of p] show ?thesis
        by (simp add: submit_cases)
          (simp add: findPending_None NameChange_create_def)
    next
      case (Some q)
      then have "\<not> (\<forall>n \<in> set (nameChanges d).
          \<not> (nc_oldName n = oldName \<and> nc_newName n = newName \<and> nc_status n = PENDING))"
        using findPending_None [of d oldName newName] by auto
      with Some \<open>find_player d oldName = Some p\<close> tracked show ?thesis
        by (simp add: submit_cases)
    qed
  qed
qed

theorem submit_outcomes_witness:
  "submit 7 ''alice'' ''bobby'' db0 =
     (Inl (Err BadRequestError ''Player 'alice' is not tracked yet.''), db0)
   \<and> submit 7 ''bob'' ''bobby'' db0 =
     (Inl (Err BadRequestError ''There's already a similar pending name change request.''), db0)
   \<and> (\<exists>nc. submit 7 ''bob'' ''robert'' db0 =
             (Inr nc, db0\<lparr>nameChanges := nameChanges db0 @ [nc]\<rparr>)
          \<and> nc_status nc = PENDING \<and> nc_id nc = 2)"
  using submit_outcomes [of db0 "''alice''" 7 "''bobby''"]
    submit_outcomes [of db0 "''bob''" 7 "''bobby''"]
    submit_outcomes [of db0 "''bob''" 7 "''robert''"]
  by (simp add: db0_def submit_cases find_player_def NameChange_findPending_def
        NameChange_create_def nextId_def)

text \<open>
  Claim C5, as stated, names the first failure NotFound. For the untracked name
  \<^verbatim>\<open>alice\<close> the error \<^verbatim>\<open>submit\<close> throws is a \<^verbatim>\<open>BadRequestError\<close>, not the
  \<^verbatim>\<open>NotFoundError\<close> that \<^verbatim>\<open>deny\<close> and \<^verbatim>\<open>approve\<close> throw for a missing request.
\<close>

theorem submit_untracked_counterexample:
  "find_player db0 ''alice'' = None
   \<and> thrown (submit 7 ''alice'' ''bobby'' db0) = Some BadRequestError
   \<and> thrown (submit 7 ''alice'' ''bobby'' db0) \<noteq> Some NotFoundError"
  by (simp add: thrown_def submit_def find_player_def db0_def)

section \<open>Denying and approving: the failures\<close>

text \<open>
  Claim C6, as the code has it. \<^verbatim>\<open>deny\<close> and \<^verbatim>\<open>approve\<close> test, in this order: that a
  request with the id exists, else they throw a \<^verbatim>\<open>NotFoundError\<close>; that its status is
  PENDING, else they throw a \<^verbatim>\<open>BadRequestError\<close> with the message that the status must
  be PENDING; that the password is the administrator's, else they throw a
  \<^verbatim>\<open>BadRequestError\<close> with the message that the password is incorrect. That is two
  error classes and three messages. Each of these failures leaves the whole database as
  it was, and so does every failure of \<^verbatim>\<open>deny\<close>.
\<close>

theorem deny_approve_failures:
  "((\<forall>n \<in> set (nameChanges d). nc_id n \<noteq> i) \<longrightarrow>
      deny ev i pw d = (Inl (Err NotFoundError ''Name change id was not found.''), d)
      \<and> approve ev fault now i pw d = (Inl (Err NotFoundError ''Name change id was not found.''), d))
   \<and> (\<forall>nc. NameChange_findOne d i = Some nc \<and> nc_status nc \<noteq> PENDING \<longrightarrow>
      deny ev i pw d = (Inl (Err BadRequestError ''Name change status must be PENDING''), d)
      \<and> approve ev fault now i pw d =
          (Inl (Err BadRequestError ''Name change status must be PENDING''), d))
   \<and> (\<forall>nc. NameChange_findOne d i = Some nc \<and> nc_status nc = PENDING
            \<and> pw \<noteq> ADMIN_PASSWORD ev \<longrightarrow>
      deny ev i pw d = (Inl (Err BadRequestError ''Incorrect password.''), d)
      \<and> approve ev fault now i pw d = (Inl (Err BadRequestError ''Incorrect password.''), d))
   \<and> (\<forall>e d'. deny ev i pw d = (Inl e, d') \<longrightarrow> d' = d)"
proof (intro conjI allI impI)
  assume "\<forall>n \<in> set (nameChanges d). nc_id n \<noteq> i"
  then have none: "NameChange_findOne d i = None" by (simp add: findOne_None)
  show "deny ev i pw d = (Inl (Err NotFoundError ''Name change id was not found.''), d)"
    using none by (simp add: deny_def)
  show "approve ev fault now i pw d = (Inl (Err NotFoundError ''Name change id was not found.''), d)"
    using none by (simp add: approve_def)
next
  fix nc assume a: "NameChange_findOne d i = Some nc \<and> nc_status nc \<noteq> PENDING"
  show "deny ev i pw d = (Inl (Err BadRequestError ''Name change status must be PENDING''), d)"
    using a by (simp add: deny_def)
  show "approve ev fault now i pw d = (Inl (Err BadRequestError ''Name change status must be PENDING''), d)"
    using a by (simp add: approve_def)
next
  fix nc assume a: "NameChange_findOne d i = Some nc \<and> nc_status nc = PENDING \<and> pw \<noteq> ADMIN_PASSWORD ev"
  show "deny ev i pw d = (Inl (Err BadRequestError ''Incorrect password.''), d)"
    using a by (simp add: deny_def)
  show "approve ev fault now i pw d = (Inl (Err BadRequestError ''Incorrect password.''), d)"
    using a by (simp add: approve_def)
next
  fix e d' assume "deny ev i pw d = (Inl e, d')"
  then show "d' = d" by (rule deny_failure_unchanged)
qed

theorem deny_approve_failures_witness:
  "deny env0 9 ''secret'' db0 = (Inl (Err NotFoundError ''Name change id was not found.''), db0)
   \<and> approve env0 noFaults 50 9 ''secret'' db0 = (Inl (Err NotFoundError ''Name change id was not found.''), db0)
   \<and> deny env0 1 ''wrong'' db0 = (Inl (Err BadRequestError ''Incorrect password.''), db0)
   \<and> approve env0 noFaults 50 1 ''wrong'' db0 = (Inl (Err BadRequestError ''Incorrect password.''), db0)
   \<and> deny env0 1 ''wrong'' (snd (deny env0 1 ''secret'' db0)) =
        (Inl (Err BadRequestError ''Name change status must be PENDING''), snd (deny env0 1 ''secret'' db0))
   \<and> approve env0 noFaults 50 1 ''secret'' (snd (deny env0 1 ''secret'' db0)) =
        (Inl (Err BadRequestError ''Name change status must be PENDING''), snd (deny env0 1 ''secret'' db0))"
  using deny_approve_failures
      [where d = db0 and i = 9 and ev = env0 and pw = "''secret''" and fault = noFaults and now = 50]
    deny_approve_failures
      [where d = db0 and i = 1 and ev = env0 and pw = "''wrong''" and fault = noFaults and now = 50]
    deny_approve_failures
      [where d = "snd (deny env0 1 ''secret'' db0)" and i = 1 and ev = env0 and pw = "''wrong''"
         and fault = noFaults and now = 50]
    deny_approve_failures
      [where d = "snd (deny env0 1 ''secret'' db0)" and i = 1 and ev = env0 and pw = "''secret''"
         and fault = noFaults and now = 50]
  by (simp add: db0_def env0_def deny_def approve_def NameChange_findOne_def NameChange_update_def)

text \<open>
  Claim C6, as stated, has three distinct error kinds. A wrong password on the PENDING
  request 1 and a right password on the same request once it is DENIED throw errors of
  one and the same class, \<^verbatim>\<open>BadRequestError\<close>, in \<^verbatim>\<open>deny\<close> and in \<^verbatim>\<open>approve\<close>.
\<close>

theorem deny_error_classes_counterexample:
  "thrown (deny env0 1 ''wrong'' db0) = Some BadRequestError
   \<and> thrown (deny env0 1 ''secret'' (snd (deny env0 1 ''secret'' db0))) = Some BadRequestError
   \<and> thrown (approve env0 noFaults 50 1 ''wrong'' db0) = Some BadRequestError
   \<and> thrown (approve env0 noFaults 50 1 ''secret'' (snd (deny env0 1 ''secret'' db0))) = Some BadRequestError"
  by (simp add: thrown_def db0_def env0_def deny_def approve_def NameChange_findOne_def NameChange_update_def)

text \<open>
  Claim C10. With a password that is not the administrator's, \<^verbatim>\<open>deny\<close> and \<^verbatim>\<open>approve\<close>
  throw the not-found error exactly when no request has the id, the error that the
  status must be PENDING exactly when the request is there and not PENDING, and the
  error that the password is incorrect exactly when the request is there and PENDING.
  The three errors differ, so the error tells a caller without the password whether
  the id is in use and whether the request is still pending.
\<close>

theorem credential_checked_last:
  assumes "pw \<noteq> ADMIN_PASSWORD ev"
  shows "(fst (deny ev i pw d) = Inl (Err NotFoundError ''Name change id was not found.'')
            \<longleftrightarrow> (\<forall>n \<in> set (nameChanges d). nc_id n \<noteq> i))
       \<and> (fst (deny ev i pw d) = Inl (Err BadRequestError ''Name change status must be PENDING'')
            \<longleftrightarrow> (\<exists>nc. NameChange_findOne d i = Some nc \<and> nc_status nc \<noteq> PENDING))
       \<and> (fst (deny ev i pw d) = Inl (Err BadRequestError ''Incorrect password.'')
            \<longleftrightarrow> (\<exists>nc. NameChange_findOne d i = Some nc \<and> nc_status nc = PENDING))
       \<and> (fst (approve ev fault now i pw d) =
              Inl (Err NotFoundError ''Name change id was not found.'')
            \<longleftrightarrow> (\<forall>n \<in> set (nameChanges d). nc_id n \<noteq> i))
       \<and> (fst (approve ev fault now i pw d) =
              Inl (Err BadRequestError ''Name change status must be PENDING'')
            \<longleftrightarrow> (\<exists>nc. NameChange_findOne d i = Some nc \<and> nc_status nc \<noteq> PENDING))
       \<and> (fst (approve ev fault now i pw d) = Inl (Err BadRequestError ''Incorrect password.'')
            \<longleftrightarrow> (\<exists>nc. NameChange_findOne d i = Some nc \<and> nc_status nc = PENDING))"
  using assms
  by (auto simp: deny_def approve_def findOne_None [symmetric] split: option.splits)

theorem credential_checked_last_witness:
  "''wrong'' \<noteq> ADMIN_PASSWORD env0
   \<and> fst (deny env0 9 ''wrong'' db0) = Inl (Err NotFoundError ''Name change id was not found.'')
   \<and> fst (deny env0 1 ''wrong'' db0) = Inl (Err BadRequestError ''Incorrect password.'')
   \<and> fst (approve env0 noFaults 50 1 ''wrong'' (snd (deny env0 1 ''secret'' db0))) =
        Inl (Err BadRequestError ''Name change status must be PENDING'')"
  using credential_checked_last
      [where pw = "''wrong''" and ev = env0 and d = db0 and i = 9 and fault = noFaults and now = 50]
    credential_checked_last
      [where pw = "''wrong''" and ev = env0 and d = db0 and i = 1 and fault = noFaults and now = 50]
    credential_checked_last
      [where pw = "''wrong''" and ev = env0 and d = "snd (deny env0 1 ''secret'' db0)" and i = 1
         and fault = noFaults and now = 50]
  by (simp add: db0_def env0_def deny_def approve_def NameChange_findOne_def NameChange_update_def)

section \<open>Atomicity of the merge\<close>

text \<open>
  When \<^verbatim>\<open>transferData\<close> throws, whatever throws, the committed database is the one before
  the call (lemma \<open>transferData_failure\<close>), and \<^verbatim>\<open>approve\<close> throws the same error and
  leaves the database as it was, the request included.
\<close>

lemma approve_merge_failure:
  assumes "NameChange_findOne d i = Some nc" and "nc_status nc = PENDING"
    and "pw = ADMIN_PASSWORD ev" and "find_player d (nc_oldName nc) = Some op"
    and "fst (transferData ev fault now op (find_player d (nc_newName nc)) (nc_newName nc) d)
           = Inl e"
  shows "approve ev fault now i pw d = (Inl e, d)
       \<and> NameChange_findOne (snd (approve ev fault now i pw d)) i = Some nc"
proof -
  obtain d2 where
    t: "transferData ev fault now op (find_player d (nc_newName nc)) (nc_newName nc) d
          = (Inl e, d2)"
    using assms(5) by (metis prod.collapse)
  then have "d2 = d" by (rule transferData_failure)
  with assms t have ap: "approve ev fault now i pw d = (Inl e, d)"
    by (simp add: approve_def Let_def)
  with assms(1) show ?thesis by simp
qed

text \<open>A database call that a merge reaches and that throws makes \<^verbatim>\<open>transferData\<close> throw.\<close>

lemma merge_fault_throws:
  assumes "fault st = Some x" and "executed newPlayer st"
  shows "\<exists>e'. transferData ev fault now oldPlayer newPlayer newName d = (Inl e', d)"
proof -
  obtain r d2 where r: "transferData ev fault now oldPlayer newPlayer newName d = (r, d2)"
    by force
  show ?thesis
  proof (cases r)
    case (Inl e')
    with r transferData_failure [of ev fault now oldPlayer newPlayer newName d e' d2]
    show ?thesis by simp
  next
    case (Inr u)
    with r transferData_Inr [of ev fault now oldPlayer newPlayer newName d u d2] assms
    show ?thesis by force
  qed
qed

text \<open>
  When opening the transaction, reading the transition date, the commit and the rollback
  do not throw, an error of \<^verbatim>\<open>transferData\<close> is the error of a database call inside the
  \<^verbatim>\<open>try\<close>, and the transaction has been rolled back: it is finished by a rollback and
  its view of the database is the database before the call.
\<close>

lemma merge_failure_rolled_back:
  assumes "transferDataTx ev fault now oldPlayer newPlayer newName d = (Inl e, so)"
    and "fault BeginTransaction = None" and "fault FindLatest = None"
    and "fault Commit = None" and "fault Rollback = None"
  shows "so = Some \<lparr>committed = d, working = d, finished = Some FinishedRollback\<rparr>
       \<and> (\<exists>st. fault st = Some e)"
proof -
  define td where
    "td = (case findLatest d (p_id oldPlayer) of None \<Rightarrow> None | Some sn \<Rightarrow> s_createdAt sn)"
  obtain r2 s2 where
    t: "tryTransfer ev fault now Transaction td (standardize ev newName) oldPlayer newPlayer
          (beginTransaction d) = (r2, s2)"
    by force
  show ?thesis
  proof (cases r2)
    case (Inr u)
    with assms t show ?thesis
      by (simp add: transferDataTx_def call_def query_def Let_def td_def beginTransaction_def)
  next
    case (Inl e2)
    with t assms(4) have c: "committed s2 = d" and f: "finished s2 = None"
      and e2: "\<exists>st. fault st = Some e2"
      using tryTransfer_failure [of ev fault now Transaction td "standardize ev newName"
              oldPlayer newPlayer "beginTransaction d" e2 s2]
      by (auto simp: beginTransaction_def)
    from f assms(5)
    have rb: "rollback fault s2 =
                (Inr (), s2\<lparr>working := committed s2, finished := Some FinishedRollback\<rparr>)"
      by (simp add: rollback_def)
    from assms(1,2,3) t Inl rb
    have "e = e2"
      and "so = Some (s2\<lparr>working := committed s2, finished := Some FinishedRollback\<rparr>)"
      by (auto simp: transferDataTx_def call_def query_def Let_def td_def beginTransaction_def)
    with c e2 show ?thesis by (cases s2) simp
  qed
qed

text \<open>
  When the commit throws and no other call does, the \<^verbatim>\<open>catch\<close> block asks for a rollback
  of a transaction that the commit has finished. The rollback refuses, and its error
  leaves \<^verbatim>\<open>transferData\<close> in the place of the error of the commit. The transaction is
  never rolled back: its view is still that of the merge carried out.
\<close>

lemma merge_failure_at_commit:
  "transferDataTx ev (noFaults(Commit := Some x)) now oldPlayer newPlayer newName d =
     (Inl (Err Error
             ''Transaction cannot be rolled back because it has been finished with state: commit''),
      Some \<lparr>committed = d,
            working = snd (transferData ev noFaults now oldPlayer newPlayer newName d),
            finished = Some FinishedCommit\<rparr>)"
proof (cases newPlayer)
  case None
  show ?thesis
    unfolding None transferData_noFaults_None snd_conv
    by (simp add: transferDataTx_def tryTransfer_def Let_def
          await_assoc await_query await_exec call_skip
          Player_save_def writeDb_def beginTransaction_def commit_def rollback_def
          finishedName_def exec_def query_def)
next
  case (Some np)
  show ?thesis
    unfolding Some transferData_noFaults_Some snd_conv
    by (simp add: transferDataTx_def tryTransfer_def transferRecords_def transferSnapshots_def
          transferMemberships_def transferParticipations_def Let_def
          await_assoc await_query await_exec fold_Record_update call_skip
          Snapshot_bulkCreate_def Membership_bulkCreate_def Participation_bulkCreate_def
          Player_destroy_def Player_save_def writeDb_def beginTransaction_def commit_def
          rollback_def finishedName_def exec_def query_def merged_def
        split: option.splits)
qed

text \<open>
  In \<open>db0\<close>, with saving the renamed player throwing: \<^verbatim>\<open>approve\<close> throws that error, the
  database and the request are as before, and the transaction has been rolled back.
\<close>

lemma merge_failure_at_save:
  "approve env0 faultAtSave 1000 1 ''secret'' db0 = (Inl (Err Error ''connection lost''), db0)
   \<and> NameChange_findOne (snd (approve env0 faultAtSave 1000 1 ''secret'' db0)) 1 =
       Some \<lparr>nc_id = 1, nc_playerId = 1, nc_oldName = ''bob'', nc_newName = ''bobby'',
             nc_status = PENDING, nc_resolvedAt = None, nc_createdAt = 5\<rparr>
   \<and> snd (transferDataTx env0 faultAtSave 1000
            \<lparr>p_id = 1, p_username = ''bob'', p_displayName = ''bob''\<rparr>
            (Some \<lparr>p_id = 2, p_username = ''bobby'', p_displayName = ''bobby''\<rparr>) ''bobby'' db0) =
       Some \<lparr>committed = db0, working = db0, finished = Some FinishedRollback\<rparr>"
proof -
  let ?bob = "\<lparr>p_id = 1, p_username = ''bob'', p_displayName = ''bob''\<rparr>"
  let ?bobby = "\<lparr>p_id = 2, p_username = ''bobby'', p_displayName = ''bobby''\<rparr>"
  let ?nc = "\<lparr>nc_id = 1, nc_playerId = 1, nc_oldName = ''bob'', nc_newName = ''bobby'',
             nc_status = PENDING, nc_resolvedAt = None, nc_createdAt = 5\<rparr>"
  let ?boom = "Err Error ''connection lost''"
  have f: "faultAtSave SavePlayer = Some ?boom"
    by (simp add: faultAtSave_def)
  have only: "\<And>st e. faultAtSave st = Some e \<Longrightarrow> e = ?boom"
    by (simp add: faultAtSave_def split: if_splits)
  have none: "faultAtSave BeginTransaction = None" "faultAtSave FindLatest = None"
    "faultAtSave Commit = None" "faultAtSave Rollback = None"
    by (simp_all add: faultAtSave_def)
  have look: "NameChange_findOne db0 1 = Some ?nc" "find_player db0 ''bob'' = Some ?bob"
    "find_player db0 ''bobby'' = Some ?bobby" "ADMIN_PASSWORD env0 = ''secret''"
    by (simp_all add: db0_def env0_def NameChange_findOne_def find_player_def)
  from f have "\<exists>e'. transferData env0 faultAtSave 1000 ?bob (Some ?bobby) ''bobby'' db0
                     = (Inl e', db0)"
    by (rule merge_fault_throws) (simp add: executed_def)
  then obtain e' where
    t: "transferData env0 faultAtSave 1000 ?bob (Some ?bobby) ''bobby'' db0 = (Inl e', db0)"
    by blast
  obtain r so where
    tx: "transferDataTx env0 faultAtSave 1000 ?bob (Some ?bobby) ''bobby'' db0 = (r, so)"
    by force
  with t have r: "r = Inl e'"
    by (auto simp: transferData_def split: option.splits)
  from merge_failure_rolled_back [OF tx [unfolded r] none]
  have so: "so = Some \<lparr>committed = db0, working = db0, finished = Some FinishedRollback\<rparr>"
    and "\<exists>st. faultAtSave st = Some e'"
    by simp_all
  then have e': "e' = ?boom" using only by blast
  have "approve env0 faultAtSave 1000 1 ''secret'' db0 = (Inl ?boom, db0)
      \<and> NameChange_findOne (snd (approve env0 faultAtSave 1000 1 ''secret'' db0)) 1 = Some ?nc"
    using approve_merge_failure
      [where fault = faultAtSave and e = ?boom and ev = env0 and now = 1000 and d = db0
         and i = 1 and nc = ?nc and pw = "''secret''" and op = ?bob]
      look t e'
    by simp
  with tx so look(1) show ?thesis by simp
qed

text \<open>
  Claim C4 holds where the call that throws is one inside the \<^verbatim>\<open>try\<close> other than the
  commit, and the rollback does not throw (lemmas \<open>transferData_failure\<close>,
  \<open>merge_failure_rolled_back\<close> and \<open>approve_merge_failure\<close>). It fails when the commit
  throws. In \<open>db0\<close>, with the commit throwing the error \<^verbatim>\<open>connection lost\<close> and no other
  call throwing, \<^verbatim>\<open>approve\<close> of request 1 leaves the database as it was, and the request
  PENDING, but the error it throws is not the error of the commit: it is the refusal of
  the rollback, and the transaction is finished by the commit, not rolled back. And
  when reading the transition date throws, before the \<^verbatim>\<open>try\<close>, the error is the one
  thrown, but the transaction is left open, neither rolled back nor committed.
\<close>

theorem merge_commit_failure_replaces_error:
  "faultAtCommit Commit = Some (Err Error ''connection lost'')
   \<and> approve env0 faultAtCommit 1000 1 ''secret'' db0 =
       (Inl (Err Error
               ''Transaction cannot be rolled back because it has been finished with state: commit''),
        db0)
   \<and> map_option finished
       (snd (transferDataTx env0 faultAtCommit 1000
               \<lparr>p_id = 1, p_username = ''bob'', p_displayName = ''bob''\<rparr>
               (Some \<lparr>p_id = 2, p_username = ''bobby'', p_displayName = ''bobby''\<rparr>) ''bobby'' db0)) =
       Some (Some FinishedCommit)
   \<and> transferDataTx env0 faultAtFindLatest 1000
       \<lparr>p_id = 1, p_username = ''bob'', p_displayName = ''bob''\<rparr>
       (Some \<lparr>p_id = 2, p_username = ''bobby'', p_displayName = ''bobby''\<rparr>) ''bobby'' db0 =
       (Inl (Err Error ''connection lost''),
        Some \<lparr>committed = db0, working = db0, finished = None\<rparr>)"
proof -
  let ?bob = "\<lparr>p_id = 1, p_username = ''bob'', p_displayName = ''bob''\<rparr>"
  let ?bobby = "\<lparr>p_id = 2, p_username = ''bobby'', p_displayName = ''bobby''\<rparr>"
  let ?nc = "\<lparr>nc_id = 1, nc_playerId = 1, nc_oldName = ''bob'', nc_newName = ''bobby'',
             nc_status = PENDING, nc_resolvedAt = None, nc_createdAt = 5\<rparr>"
  let ?refused = "Err Error
    ''Transaction cannot be rolled back because it has been finished with state: commit''"
  have look: "NameChange_findOne db0 1 = Some ?nc" "find_player db0 ''bob'' = Some ?bob"
    "find_player db0 ''bobby'' = Some ?bobby" "ADMIN_PASSWORD env0 = ''secret''"
    by (simp_all add: db0_def env0_def NameChange_findOne_def find_player_def)
  have c: "faultAtCommit Commit = Some (Err Error ''connection lost'')"
    by (simp add: faultAtCommit_def)
  have tx: "transferDataTx env0 faultAtCommit 1000 ?bob (Some ?bobby) ''bobby'' db0 =
      (Inl ?refused,
       Some \<lparr>committed = db0,
             working = snd (transferData env0 noFaults 1000 ?bob (Some ?bobby) ''bobby'' db0),
             finished = Some FinishedCommit\<rparr>)"
    unfolding faultAtCommit_def by (rule merge_failure_at_commit)
  then have t: "transferData env0 faultAtCommit 1000 ?bob (Some ?bobby) ''bobby'' db0 =
      (Inl ?refused, db0)"
    by (simp add: transferData_def)
  have a: "approve env0 faultAtCommit 1000 1 ''secret'' db0 = (Inl ?refused, db0)"
    using look t by (simp add: approve_def Let_def)
  have l: "transferDataTx env0 faultAtFindLatest 1000 ?bob (Some ?bobby) ''bobby'' db0 =
       (Inl (Err Error ''connection lost''),
        Some \<lparr>committed = db0, working = db0, finished = None\<rparr>)"
    by (simp add: transferDataTx_def faultAtFindLatest_def noFaults_def call_def
          beginTransaction_def)
  from c a tx l show ?thesis by simp
qed

section \<open>Merging the records\<close>

text \<open>
  After a merge that succeeds, with a present new player, the row the old player has for
  a metric and a period is the row it had, with the record updates of the merge applied
  to it; unless the new player is the same row as the old one and the record model
  deletes the rows of a player with the player.
\<close>

lemma records_merge_lookup:
  assumes "transferData ev fault now oldPlayer (Some newPlayer) newName d = (Inr u, d')"
    and "p_id newPlayer \<noteq> p_id oldPlayer \<or> \<not> cascadeRecords ev"
  shows "Record_findOne d' (p_id oldPlayer) metric period =
     map_option
       (applyUpdates now
          (outdatedOf (filter (\<lambda>r. r_playerId r = p_id oldPlayer) (records d))
             (filter (recordMatches ev
                 \<lparr>w_playerId = p_id newPlayer, w_createdAt = None,
                  w_updatedAt = Some (case findLatest d (p_id oldPlayer) of
                                        None \<Rightarrow> None | Some sn \<Rightarrow> s_createdAt sn)\<rparr>)
                (records d))))
       (Record_findOne d (p_id oldPlayer) metric period)"
proof (cases "cascadeRecords ev")
  case True
  with assms(2) have ne: "p_id oldPlayer \<noteq> p_id newPlayer" by auto
  from records_transferData_Some [OF assms(1)] show ?thesis
    by (rule Record_findOne_merged) (rule ne)
next
  case False
  with records_transferData_Some [OF assms(1)] show ?thesis
    by (intro Record_findOne_updated) (simp add: cascade_def)
qed

text \<open>
  Take a database with at most one record row per player, metric and period, and a merge
  that succeeds, with a present new player, the old player's latest snapshot being at
  time \<open>t\<close>; the new player is another row than the old one, or the record model does
  not delete the rows of a player with the player. If the old player has a row for a
  metric and period, and the new player has one for the same metric and period that was
  updated at \<open>t\<close> or later, then after the merge the value of the old player's row is the
  greater of the two values.
\<close>

lemma records_merge_max:
  assumes "distinct (map recordKey (records d))"
    and "transferData ev fault now oldPlayer (Some newPlayer) newName d = (Inr u, d')"
    and "p_id newPlayer \<noteq> p_id oldPlayer \<or> \<not> cascadeRecords ev"
    and "findLatest d (p_id oldPlayer) = Some sn" and "s_createdAt sn = Some t"
    and "Record_findOne d (p_id oldPlayer) metric period = Some old"
    and "Record_findOne d (p_id newPlayer) metric period = Some new"
    and "t \<le> r_updatedAt new"
  shows "map_option r_value (Record_findOne d' (p_id oldPlayer) metric period) =
           Some (max (r_value old) (r_value new))"
proof -
  let ?uf = "\<lparr>w_playerId = p_id newPlayer, w_createdAt = None, w_updatedAt = Some (Some t)\<rparr>"
  let ?us = "outdatedOf (filter (\<lambda>r. r_playerId r = p_id oldPlayer) (records d))
               (filter (recordMatches ev ?uf) (records d))"
  have look: "Record_findOne d' (p_id oldPlayer) metric period =
      map_option (applyUpdates now ?us) (Record_findOne d (p_id oldPlayer) metric period)"
    using records_merge_lookup [OF assms(2,3)] assms(4,5) by simp
  have old: "old \<in> set (records d)" "r_playerId old = p_id oldPlayer"
    "r_metric old = metric" "r_period old = period"
    using assms(6) by (auto simp: Record_findOne_def dest!: find_SomeD)
  have new: "new \<in> set (records d)" "r_playerId new = p_id newPlayer"
    "r_metric new = metric" "r_period new = period"
    using assms(7) by (auto simp: Record_findOne_def dest!: find_SomeD)
  have m: "recordMatches ev ?uf new"
    using new assms(8) by (simp add: recordMatches_def whereMatches_def sqlGte_def)
  have "applyUpdates now ?us old =
      (if r_value old < r_value new then old\<lparr>r_value := r_value new, r_updatedAt := now\<rparr> else old)"
    using assms(1) old(1,2) new(1) m by (rule records_merge_row) (simp_all add: old new)
  then have "r_value (applyUpdates now ?us old) = max (r_value old) (r_value new)"
    by (simp add: max_def)
  then show ?thesis
    using look assms(6) by simp
qed

text \<open>
  Under the same condition on the new player, if there is one, and whatever the outcome
  of the merge and the old player's snapshots: every row of the old player is there
  after the merge, with a value that is not lower than before.
\<close>

lemma records_merge_never_decreases:
  assumes "distinct (map recordKey (records d))"
    and "\<forall>np. newPlayer = Some np \<longrightarrow> p_id np \<noteq> p_id oldPlayer \<or> \<not> cascadeRecords ev"
    and "r \<in> set (records d)" and "r_playerId r = p_id oldPlayer"
  shows "\<exists>r'. Record_findOne (snd (transferData ev fault now oldPlayer newPlayer newName d))
                 (p_id oldPlayer) (r_metric r) (r_period r) = Some r'
              \<and> r_value r \<le> r_value r'"
proof -
  obtain res d' where res: "transferData ev fault now oldPlayer newPlayer newName d = (res, d')"
    by force
  have self: "Record_findOne d (p_id oldPlayer) (r_metric r) (r_period r) = Some r"
    using Record_findOne_self [OF assms(1,3)] assms(4) by simp
  show ?thesis
  proof (cases res)
    case (Inl e)
    with res have "d' = d" using transferData_failure by blast
    with res self show ?thesis by simp
  next
    case (Inr u)
    show ?thesis
    proof (cases newPlayer)
      case None
      from res Inr have "transferData ev noFaults now oldPlayer newPlayer newName d = (Inr u, d')"
        using transferData_Inr by blast
      with None have "records d' = records d"
        by (auto simp: transferData_noFaults_None)
      then have "Record_findOne d' = Record_findOne d"
        by (simp add: Record_findOne_def fun_eq_iff)
      with res self show ?thesis by simp
    next
      case (Some np)
      let ?us = "outdatedOf (filter (\<lambda>r. r_playerId r = p_id oldPlayer) (records d))
             (filter (recordMatches ev
                 \<lparr>w_playerId = p_id np, w_createdAt = None,
                  w_updatedAt = Some (case findLatest d (p_id oldPlayer) of
                                        None \<Rightarrow> None | Some sn \<Rightarrow> s_createdAt sn)\<rparr>)
                (records d))"
      from assms(2) Some have c: "p_id np \<noteq> p_id oldPlayer \<or> \<not> cascadeRecords ev" by simp
      from res Inr Some
      have t: "transferData ev fault now oldPlayer (Some np) newName d = (Inr u, d')" by simp
      have f: "Record_findOne d' (p_id oldPlayer) (r_metric r) (r_period r) =
                 Some (applyUpdates now ?us r)"
        using records_merge_lookup [OF t c] self by simp
      have "r_value r \<le> r_value (applyUpdates now ?us r)"
        using assms(1,3) by (rule records_merge_not_lower)
      with f res show ?thesis by simp
    qed
  qed
qed

text \<open>
  The merge of \<^verbatim>\<open>bobby\<close> into \<^verbatim>\<open>bob\<close> in \<open>db0\<close>: the old player's best of 100 becomes the
  new player's 150, the old player gains the new player's snapshot, participation and
  membership, the new player and its rows are gone, and the old player has the new name.
\<close>

lemma merge_scenario:
  "transferData env0 noFaults 1000
     \<lparr>p_id = 1, p_username = ''bob'', p_displayName = ''bob''\<rparr>
     (Some \<lparr>p_id = 2, p_username = ''bobby'', p_displayName = ''bobby''\<rparr>) ''bobby'' db0 =
   (Inr (),
    \<lparr>players = [\<lparr>p_id = 1, p_username = ''bobby'', p_displayName = ''bobby''\<rparr>],
     nameChanges =
       [\<lparr>nc_id = 1, nc_playerId = 1, nc_oldName = ''bob'', nc_newName = ''bobby'',
         nc_status = PENDING, nc_resolvedAt = None, nc_createdAt = 5\<rparr>],
     snapshots =
       [\<lparr>s_id = Some 1, s_playerId = 1, s_createdAt = Some 100, s_stats = [1]\<rparr>,
        \<lparr>s_id = Some 3, s_playerId = 1, s_createdAt = Some 220, s_stats = [2]\<rparr>],
     participations =
       [\<lparr>pt_playerId = 1, pt_competitionId = 4, pt_createdAt = 130, pt_updatedAt = 130\<rparr>],
     memberships =
       [\<lparr>m_playerId = 1, m_groupId = 7, m_role = ''member'', m_createdAt = 150,
         m_updatedAt = 150\<rparr>],
     records =
       [\<lparr>r_playerId = 1, r_metric = ''attack'', r_period = ''week'',
         r_value = 150, r_updatedAt = 1000\<rparr>]\<rparr>)"
  by (simp add: transferData_noFaults_Some merged_def Let_def db0_def env0_def findLatest_def
        cascade_def insertIgnore_def snapshotKey_def participationKey_def membershipKey_def
        nextId_def snapshotIds_def snapshotMatches_def participationMatches_def
        membershipMatches_def recordMatches_def whereMatches_def sqlGte_def
        applyUpdates_def outdatedOf_def sameRecord_def)


text \<open>
  Claim C3. The records step of the merge, whatever its outcome, leaves the list of
  (player, metric, period) keys of the record table as it was: it creates no row. After
  a merge with no new player, or with a new player that is another row than the old
  one, and whatever the outcome of the merge, the old player has rows for exactly the
  metrics and periods it had before, in the same order, also where the new player has
  rows for others.
\<close>

theorem records_merge_creates_no_row:
  "map recordKey (records (working (snd (transferRecords ev fault now w target t s)))) =
     map recordKey (records (working s))
   \<and> ((\<forall>np. newPlayer = Some np \<longrightarrow> p_id np \<noteq> p_id oldPlayer) \<longrightarrow>
        map (\<lambda>r. (r_metric r, r_period r))
          (filter (\<lambda>r. r_playerId r = p_id oldPlayer)
             (records (snd (transferData ev fault now oldPlayer newPlayer newName d)))) =
        map (\<lambda>r. (r_metric r, r_period r))
          (filter (\<lambda>r. r_playerId r = p_id oldPlayer) (records d)))"
proof (intro conjI impI)
  show "map recordKey (records (working (snd (transferRecords ev fault now w target t s)))) =
     map recordKey (records (working s))"
    by (rule records_keys_transferRecords)
next
  assume "\<forall>np. newPlayer = Some np \<longrightarrow> p_id np \<noteq> p_id oldPlayer"
  then have k: "map recordKey
           (filter (\<lambda>r. r_playerId r = p_id oldPlayer)
              (records (snd (transferData ev fault now oldPlayer newPlayer newName d)))) =
         map recordKey (filter (\<lambda>r. r_playerId r = p_id oldPlayer) (records d))"
    by (rule donor_records_transferData)
  have p: "map (\<lambda>r. (r_metric r, r_period r)) xs = map snd (map recordKey xs)" for xs
    by (simp add: recordKey_def)
  show "map (\<lambda>r. (r_metric r, r_period r))
          (filter (\<lambda>r. r_playerId r = p_id oldPlayer)
             (records (snd (transferData ev fault now oldPlayer newPlayer newName d)))) =
        map (\<lambda>r. (r_metric r, r_period r))
          (filter (\<lambda>r. r_playerId r = p_id oldPlayer) (records d))"
    unfolding p k ..
qed

theorem records_merge_creates_no_row_witness:
  "map (\<lambda>r. (r_metric r, r_period r)) (filter (\<lambda>r. r_playerId r = 2) (records db0)) =
     [(''attack'', ''week''), (''magic'', ''week'')]
   \<and> map (\<lambda>r. (r_metric r, r_period r)) (filter (\<lambda>r. r_playerId r = 1) (records db0)) =
     [(''attack'', ''week'')]
   \<and> map (\<lambda>r. (r_metric r, r_period r))
       (filter (\<lambda>r. r_playerId r = 1)
          (records (snd (transferData env0 noFaults 1000
                           \<lparr>p_id = 1, p_username = ''bob'', p_displayName = ''bob''\<rparr>
                           (Some \<lparr>p_id = 2, p_username = ''bobby'', p_displayName = ''bobby''\<rparr>)
                           ''bobby'' db0)))) =
     [(''attack'', ''week'')]"
proof -
  let ?bob = "\<lparr>p_id = 1, p_username = ''bob'', p_displayName = ''bob''\<rparr>"
  let ?bobby = "\<lparr>p_id = 2, p_username = ''bobby'', p_displayName = ''bobby''\<rparr>"
  have a: "map (\<lambda>r. (r_metric r, r_period r)) (filter (\<lambda>r. r_playerId r = 2) (records db0)) =
     [(''attack'', ''week''), (''magic'', ''week'')]"
    "map (\<lambda>r. (r_metric r, r_period r)) (filter (\<lambda>r. r_playerId r = 1) (records db0)) =
     [(''attack'', ''week'')]"
    by (simp_all add: db0_def)
  have "\<forall>np. Some ?bobby = Some np \<longrightarrow> p_id np \<noteq> p_id ?bob" by simp
  with records_merge_creates_no_row
    [where newPlayer = "Some ?bobby" and oldPlayer = ?bob and ev = env0 and fault = noFaults
       and now = 1000 and newName = "''bobby''" and d = db0, THEN conjunct2]
  have "map (\<lambda>r. (r_metric r, r_period r))
       (filter (\<lambda>r. r_playerId r = p_id ?bob)
          (records (snd (transferData env0 noFaults 1000 ?bob (Some ?bobby) ''bobby'' db0)))) =
     map (\<lambda>r. (r_metric r, r_period r)) (filter (\<lambda>r. r_playerId r = p_id ?bob) (records db0))"
    by (rule mp)
  with a show ?thesis by simp
qed

section \<open>The life of a request\<close>

text \<open>
  Claim C7. Take any sequence of submit, deny and approve operations, with any
  arguments and any faults in the database calls of the merge, and cut it in two at any
  point. A request that exists at the cut exists at the end under the same id, and it
  is then what it was at the cut, or it was PENDING at the cut and is now the same
  request DENIED, with its resolution date untouched, or the same request APPROVED,
  with a resolution date.
  So a request that is not PENDING never changes again, a request never becomes PENDING
  again, its status changes at most once, and its resolution date changes only when it
  becomes APPROVED.
\<close>

theorem status_changes_at_most_once:
  assumes "NameChange_findOne (run ev ops1 d) j = Some n1"
  shows "\<exists>n2. NameChange_findOne (run ev (ops1 @ ops2) d) j = Some n2
           \<and> oneTransition n1 n2
           \<and> (nc_status n1 \<noteq> PENDING \<longrightarrow> n2 = n1)
           \<and> (nc_status n2 = PENDING \<longrightarrow> n2 = n1)
           \<and> (nc_status n2 \<noteq> nc_status n1 \<longrightarrow>
                nc_status n1 = PENDING \<and> (nc_status n2 = APPROVED \<or> nc_status n2 = DENIED))
           \<and> (nc_resolvedAt n2 \<noteq> nc_resolvedAt n1 \<longrightarrow>
                nc_status n1 = PENDING \<and> nc_status n2 = APPROVED)"
proof -
  from run_oneTransition [OF assms, of ev ops2] obtain n2 where
    n2: "NameChange_findOne (run ev (ops1 @ ops2) d) j = Some n2" and t: "oneTransition n1 n2"
    by (auto simp: run_append)
  from t have "(nc_status n1 \<noteq> PENDING \<longrightarrow> n2 = n1)
           \<and> (nc_status n2 = PENDING \<longrightarrow> n2 = n1)
           \<and> (nc_status n2 \<noteq> nc_status n1 \<longrightarrow>
                nc_status n1 = PENDING \<and> (nc_status n2 = APPROVED \<or> nc_status n2 = DENIED))
           \<and> (nc_resolvedAt n2 \<noteq> nc_resolvedAt n1 \<longrightarrow>
                nc_status n1 = PENDING \<and> nc_status n2 = APPROVED)"
    unfolding oneTransition_def
    by (elim disjE conjE) (simp, (cases n1, simp), (cases n1, cases n2, simp))
  with n2 t show ?thesis by blast
qed

theorem status_changes_at_most_once_witness:
  "NameChange_findOne (run env0 [Deny 1 ''secret''] db0) 1 =
     Some \<lparr>nc_id = 1, nc_playerId = 1, nc_oldName = ''bob'', nc_newName = ''bobby'',
           nc_status = DENIED, nc_resolvedAt = None, nc_createdAt = 5\<rparr>
   \<and> NameChange_findOne
       (run env0 ([Deny 1 ''secret''] @ [Approve noFaults 1000 1 ''secret'', Deny 1 ''secret'']) db0)
       1 =
     Some \<lparr>nc_id = 1, nc_playerId = 1, nc_oldName = ''bob'', nc_newName = ''bobby'',
           nc_status = DENIED, nc_resolvedAt = None, nc_createdAt = 5\<rparr>"
proof -
  let ?n = "\<lparr>nc_id = 1, nc_playerId = 1, nc_oldName = ''bob'', nc_newName = ''bobby'',
           nc_status = DENIED, nc_resolvedAt = None, nc_createdAt = 5\<rparr>"
  have a: "NameChange_findOne (run env0 [Deny 1 ''secret''] db0) 1 = Some ?n"
    by (simp add: run_def deny_def NameChange_findOne_def NameChange_update_def db0_def env0_def)
  from status_changes_at_most_once [OF a,
      of "[Approve noFaults 1000 1 ''secret'', Deny 1 ''secret'']"]
  have "NameChange_findOne
       (run env0 ([Deny 1 ''secret''] @ [Approve noFaults 1000 1 ''secret'', Deny 1 ''secret'']) db0)
       1 = Some ?n"
    by auto
  with a show ?thesis by blast
qed

section \<open>The comparison report on a missing old player\<close>

text \<open>
  Claim C9. When the request exists and neither hiscores lookup throws a
  \<^verbatim>\<open>ServerError\<close>, and the old name is not the username of a tracked player, or it is
  and that player has no snapshot, then \<^verbatim>\<open>getDetails\<close> throws a \<^verbatim>\<open>TypeError\<close>, the
  error of reading a property of \<^verbatim>\<open>null\<close>: not a \<^verbatim>\<open>NotFoundError\<close>, and no report.
\<close>

theorem getDetails_null_read:
  assumes "NameChange_findOne d i = Some nc"
    and "\<forall>e. getHiscoresData ev (nc_newName nc) = Inl e \<longrightarrow> errClass e \<noteq> ServerError"
    and "\<forall>e. getHiscoresData ev (nc_oldName nc) = Inl e \<longrightarrow> errClass e \<noteq> ServerError"
    and "find_player d (nc_oldName nc) = None
         \<or> (\<exists>op. find_player d (nc_oldName nc) = Some op \<and> findLatest d (p_id op) = None)"
  shows "\<exists>msg. getDetails ev now i d = Inl (Err TypeError msg)"
proof -
  have h: "\<exists>x. tryHiscores ev name = Inr x"
    if "\<forall>e. getHiscoresData ev name = Inl e \<longrightarrow> errClass e \<noteq> ServerError" for name
    using that by (cases "getHiscoresData ev name") (auto simp: tryHiscores_def)
  from h [OF assms(2)] obtain nh where nh: "tryHiscores ev (nc_newName nc) = Inr nh" by blast
  from h [OF assms(3)] obtain oh where oh: "tryHiscores ev (nc_oldName nc) = Inr oh" by blast
  from assms(4) show ?thesis
  proof
    assume "find_player d (nc_oldName nc) = None"
    with assms(1) nh oh show ?thesis
      by (simp add: getDetails_def Let_def nullRead_def)
  next
    assume "\<exists>op. find_player d (nc_oldName nc) = Some op \<and> findLatest d (p_id op) = None"
    then obtain op where "find_player d (nc_oldName nc) = Some op" "findLatest d (p_id op) = None"
      by blast
    with assms(1) nh oh show ?thesis
      by (cases "find_player d (nc_newName nc)")
         (simp_all add: getDetails_def Let_def nullRead_def)
  qed
qed

theorem getDetails_null_read_witness:
  "find_player db1 ''dave'' = None
   \<and> thrown (getDetails env0 50 2 db1, db1) = Some TypeError
   \<and> find_player db1 ''carol'' = Some \<lparr>p_id = 3, p_username = ''carol'', p_displayName = ''Carol''\<rparr>
   \<and> findLatest db1 3 = None
   \<and> thrown (getDetails env0 50 1 db1, db1) = Some TypeError"
proof -
  let ?r1 = "\<lparr>nc_id = 1, nc_playerId = 3, nc_oldName = ''carol'', nc_newName = ''caz'',
          nc_status = PENDING, nc_resolvedAt = None, nc_createdAt = 5\<rparr>"
  let ?r2 = "\<lparr>nc_id = 2, nc_playerId = 4, nc_oldName = ''dave'', nc_newName = ''dan'',
          nc_status = PENDING, nc_resolvedAt = None, nc_createdAt = 6\<rparr>"
  have f: "NameChange_findOne db1 1 = Some ?r1" "NameChange_findOne db1 2 = Some ?r2"
    by (simp_all add: NameChange_findOne_def db1_def)
  have hs: "\<forall>e. getHiscoresData env0 name = Inl e \<longrightarrow> errClass e \<noteq> ServerError" for name
    by (simp add: env0_def)
  have p: "find_player db1 ''dave'' = None"
    "find_player db1 ''carol'' = Some \<lparr>p_id = 3, p_username = ''carol'', p_displayName = ''Carol''\<rparr>"
    "findLatest db1 3 = None"
    by (simp_all add: find_player_def findLatest_def db1_def)
  have "\<exists>msg. getDetails env0 50 2 db1 = Inl (Err TypeError msg)"
    using getDetails_null_read [OF f(2) hs hs] p by simp
  moreover have "\<exists>msg. getDetails env0 50 1 db1 = Inl (Err TypeError msg)"
    using getDetails_null_read [OF f(1) hs hs] p by simp
  ultimately show ?thesis using p by (auto simp: thrown_def)
qed

section \<open>Approving a request\<close>

text \<open>
  Claim C1 holds when the new name is not tracked or belongs to another player than the
  old one (lemma \<open>approve_renames_donor\<close>: after a successful \<^verbatim>\<open>approve\<close> the old
  player is there, its username and display name are the standardized new name, and
  the new player is gone). It fails when both names find the same player. In \<open>db0\<close>,
  \<^verbatim>\<open>submit\<close> accepts a request to rename \<^verbatim>\<open>bob\<close> to \<^verbatim>\<open>bob\<close>; \<^verbatim>\<open>approve\<close> of that request
  succeeds and marks it APPROVED, and the player \<^verbatim>\<open>bob\<close> has been deleted: the merge
  destroys the new player, which is the old player, and the update of the old player's
  name then finds no row.
\<close>

theorem approve_same_name_deletes_donor:
  "find_player db0 ''bob'' = Some \<lparr>p_id = 1, p_username = ''bob'', p_displayName = ''bob''\<rparr>
   \<and> fst (submit 7 ''bob'' ''bob'' db0) =
       Inr \<lparr>nc_id = 2, nc_playerId = 1, nc_oldName = ''bob'', nc_newName = ''bob'',
            nc_status = PENDING, nc_resolvedAt = None, nc_createdAt = 7\<rparr>
   \<and> fst (approve env0 noFaults 1000 2 ''secret'' (snd (submit 7 ''bob'' ''bob'' db0))) =
       Inr \<lparr>nc_id = 2, nc_playerId = 1, nc_oldName = ''bob'', nc_newName = ''bob'',
            nc_status = APPROVED, nc_resolvedAt = Some 1000, nc_createdAt = 7\<rparr>
   \<and> players (snd (approve env0 noFaults 1000 2 ''secret'' (snd (submit 7 ''bob'' ''bob'' db0)))) =
       [\<lparr>p_id = 2, p_username = ''bobby'', p_displayName = ''bobby''\<rparr>]
   \<and> find_player (snd (approve env0 noFaults 1000 2 ''secret'' (snd (submit 7 ''bob'' ''bob'' db0))))
        ''bob'' = None"
  by (simp add: submit_cases approve_def Let_def find_player_def NameChange_findPending_def
        NameChange_findOne_def NameChange_create_def NameChange_update_def nextId_def
        transferData_noFaults_Some merged_def db0_def env0_def)

section \<open>Transferring snapshots, participations and memberships\<close>

text \<open>
  Claim C8. With the conflict keys of the spec for snapshots (player, creation date) and
  participations (player, competition) and the unique index of the membership model
  (player, group): each of the three transfer steps, given the filter for the new
  player \<open>rid\<close> and the transition date \<open>t\<close>, keeps every row of its table in place and
  appends copies, owned by the target player, of rows of \<open>rid\<close> created at \<open>t\<close> or later
  and of no other row; it appends no row whose key is already in the table and no two
  rows with the same key, and afterwards the key of every such copy is in the table.
  For any filter, running a step a second time on the result of the first run changes
  nothing, so the number of rows is the same after two runs as after one.
\<close>

theorem natural_key_transfers:
  "appendsCopies snapshotKey
     (\<lambda>q. s_playerId q = rid \<and> (case s_createdAt q of None \<Rightarrow> False | Some c \<Rightarrow> t \<le> c))
     (\<lambda>q. q\<lparr>s_playerId := target, s_id := None\<rparr>) (\<lambda>r. r\<lparr>s_id := None\<rparr>)
     (snapshots d) (snapshots (moveSnapshots ev (createdSince rid t) target d))
   \<and> appendsCopies participationKey
     (\<lambda>q. pt_playerId q = rid \<and> t \<le> pt_createdAt q)
     (\<lambda>q. q\<lparr>pt_playerId := target\<rparr>) (\<lambda>r. r)
     (participations d) (participations (moveParticipations ev (createdSince rid t) target d))
   \<and> appendsCopies membershipKey
     (\<lambda>q. m_playerId q = rid \<and> t \<le> m_createdAt q)
     (\<lambda>q. q\<lparr>m_playerId := target\<rparr>) (\<lambda>r. r)
     (memberships d) (memberships (moveMemberships ev (createdSince rid t) target d))
   \<and> moveSnapshots ev w target (moveSnapshots ev w target d) = moveSnapshots ev w target d
   \<and> moveParticipations ev w target (moveParticipations ev w target d) =
       moveParticipations ev w target d
   \<and> moveMemberships ev w target (moveMemberships ev w target d) = moveMemberships ev w target d
   \<and> length (snapshots (moveSnapshots ev w target (moveSnapshots ev w target d))) =
       length (snapshots (moveSnapshots ev w target d))
   \<and> length (participations (moveParticipations ev w target (moveParticipations ev w target d))) =
       length (participations (moveParticipations ev w target d))
   \<and> length (memberships (moveMemberships ev w target (moveMemberships ev w target d))) =
       length (memberships (moveMemberships ev w target d))"
proof -
  have s: "appendsCopies snapshotKey
     (\<lambda>q. s_playerId q = rid \<and> (case s_createdAt q of None \<Rightarrow> False | Some c \<Rightarrow> t \<le> c))
     (\<lambda>q. q\<lparr>s_playerId := target, s_id := None\<rparr>) (\<lambda>r. r\<lparr>s_id := None\<rparr>)
     (snapshots d) (snapshots (moveSnapshots ev (createdSince rid t) target d))"
    unfolding moveSnapshots_eq snapshotMatches_createdSince
    by (simp, rule insertIgnore_appendsCopies; simp add: snapshotKey_def)
  have p: "appendsCopies participationKey
     (\<lambda>q. pt_playerId q = rid \<and> t \<le> pt_createdAt q)
     (\<lambda>q. q\<lparr>pt_playerId := target\<rparr>) (\<lambda>r. r)
     (participations d) (participations (moveParticipations ev (createdSince rid t) target d))"
    unfolding moveParticipations_eq participationMatches_createdSince
    by (simp, rule insertIgnore_appendsCopies; simp)
  have m: "appendsCopies membershipKey
     (\<lambda>q. m_playerId q = rid \<and> t \<le> m_createdAt q)
     (\<lambda>q. q\<lparr>m_playerId := target\<rparr>) (\<lambda>r. r)
     (memberships d) (memberships (moveMemberships ev (createdSince rid t) target d))"
    unfolding moveMemberships_eq membershipMatches_createdSince
    by (simp, rule insertIgnore_appendsCopies; simp)
  show ?thesis
    using s p m by (simp only: moveSnapshots_twice moveParticipations_twice moveMemberships_twice)
qed


theorem natural_key_transfers_witness:
  "snapshots (moveSnapshots env0 (createdSince 2 100) 1 db0) =
     snapshots db0 @ [\<lparr>s_id = Some 3, s_playerId = 1, s_createdAt = Some 220, s_stats = [2]\<rparr>]
   \<and> participations (moveParticipations env0 (createdSince 2 100) 1 db0) =
     participations db0 @
       [\<lparr>pt_playerId = 1, pt_competitionId = 4, pt_createdAt = 130, pt_updatedAt = 130\<rparr>]
   \<and> memberships (moveMemberships env0 (createdSince 2 100) 1 db0) =
     memberships db0 @
       [\<lparr>m_playerId = 1, m_groupId = 7, m_role = ''member'', m_createdAt = 150, m_updatedAt = 150\<rparr>]
   \<and> length (snapshots (moveSnapshots env0 (createdSince 2 100) 1
                 (moveSnapshots env0 (createdSince 2 100) 1 db0))) = 3
   \<and> length (participations (moveParticipations env0 (createdSince 2 100) 1
                 (moveParticipations env0 (createdSince 2 100) 1 db0))) = 2
   \<and> length (memberships (moveMemberships env0 (createdSince 2 100) 1
                 (moveMemberships env0 (createdSince 2 100) 1 db0))) = 2"
proof -
  have s: "snapshots (moveSnapshots env0 (createdSince 2 100) 1 db0) =
     snapshots db0 @ [\<lparr>s_id = Some 3, s_playerId = 1, s_createdAt = Some 220, s_stats = [2]\<rparr>]"
    by (simp add: moveSnapshots_eq snapshotMatches_createdSince insertIgnore_def snapshotKey_def
          snapshotIds_def nextId_def db0_def)
  have p: "participations (moveParticipations env0 (createdSince 2 100) 1 db0) =
     participations db0 @
       [\<lparr>pt_playerId = 1, pt_competitionId = 4, pt_createdAt = 130, pt_updatedAt = 130\<rparr>]"
    by (simp add: moveParticipations_eq participationMatches_createdSince insertIgnore_def
          participationKey_def db0_def)
  have m: "memberships (moveMemberships env0 (createdSince 2 100) 1 db0) =
     memberships db0 @
       [\<lparr>m_playerId = 1, m_groupId = 7, m_role = ''member'', m_createdAt = 150, m_updatedAt = 150\<rparr>]"
    by (simp add: moveMemberships_eq membershipMatches_createdSince insertIgnore_def
          membershipKey_def db0_def)
  have l: "length (snapshots db0) = 2" "length (participations db0) = 1"
    "length (memberships db0) = 1"
    by (simp_all add: db0_def)
  note t = natural_key_transfers
    [where ev = env0 and w = "createdSince 2 100" and target = 1 and d = db0 and rid = 2 and t = 100]
  from t have "length (snapshots (moveSnapshots env0 (createdSince 2 100) 1
                 (moveSnapshots env0 (createdSince 2 100) 1 db0))) =
               length (snapshots (moveSnapshots env0 (createdSince 2 100) 1 db0))"
    by (elim conjE)
  moreover from t have "length (participations (moveParticipations env0 (createdSince 2 100) 1
                 (moveParticipations env0 (createdSince 2 100) 1 db0))) =
               length (participations (moveParticipations env0 (createdSince 2 100) 1 db0))"
    by (elim conjE)
  moreover from t have "length (memberships (moveMemberships env0 (createdSince 2 100) 1
                 (moveMemberships env0 (createdSince 2 100) 1 db0))) =
               length (memberships (moveMemberships env0 (createdSince 2 100) 1 db0))"
    by (elim conjE)
  ultimately show ?thesis
    by (simp only: s p m length_append l) simp
qed

end
